theory Spec2Isabelle
  imports Main "HOL-Library.Sublist"
begin

section \<open>Theme manager of Brackets-Themes (\<^verbatim>\<open>ThemeManager.js\<close>)\<close>

text \<open>
  JavaScript strings are modelled as \<^typ>\<open>string\<close> (lists of characters), one
  character for one code unit. The two regular expressions of the module, the
  splitting of names and the tests of extensions only compare characters with ASCII
  characters; upper-casing is modelled on the ASCII letters only, and no property below
  depends on the letters it produces.
\<close>

subsection \<open>Regular expressions as the module uses them\<close>

text \<open>
  Both \<^verbatim>\<open>commentRegex\<close> and \<^verbatim>\<open>scrollbarsRegex\<close> are sequences of literals
  and of starred character classes, greedy (\<^verbatim>\<open>[^}|,]*\<close>) or lazy (\<^verbatim>\<open>[\s\S]*?\<close>).
  The groups \<^verbatim>\<open>(?:...)\<close> and \<^verbatim>\<open>(...)\<close> only bracket one such star, and no
  capture is ever read. \<open>rmatch\<close> is the backtracking matcher of the language: it
  tries the alternatives of every star in priority order (greedy: one more character
  first; lazy: the rest of the pattern first) and returns the input left after the
  first successful match.
\<close>

datatype cls = AnyChar | NoneOf string

datatype atom = Lit string | Greedy cls | Lazy cls

type_synonym regex = "atom list"

fun accepts :: "cls \<Rightarrow> char \<Rightarrow> bool" where
  "accepts AnyChar c = True"
| "accepts (NoneOf s) c = (c \<notin> set s)"

fun rmatch :: "regex \<Rightarrow> string \<Rightarrow> string option" where
  "rmatch [] s = Some s"
| "rmatch (Lit l # r) s =
     (if prefix l s then rmatch r (drop (length l) s) else None)"
| "rmatch (Greedy k # r) [] = rmatch r []"
| "rmatch (Greedy k # r) (c # cs) =
     (if accepts k c
      then (case rmatch (Greedy k # r) cs of
              Some t \<Rightarrow> Some t
            | None \<Rightarrow> rmatch r (c # cs))
      else rmatch r (c # cs))"
| "rmatch (Lazy k # r) s =
     (case rmatch r s of
        Some t \<Rightarrow> Some t
      | None \<Rightarrow>
          (case s of
             [] \<Rightarrow> None
           | c # cs \<Rightarrow> if accepts k c then rmatch (Lazy k # r) cs else None))"

text \<open>
  \<^verbatim>\<open>String.prototype.replace\<close> with a global regular expression and a replacement
  that is always the empty string: the scan starts at index 0, tries the pattern at
  each index in turn, drops every match and resumes at the end of the match (one
  index further after an empty match, keeping the character there). The result is the
  text that is left together with the matches in source order, which is what the
  callback of \<^verbatim>\<open>extractScrollbars\<close> pushes. Both patterns carry the flags
  \<^verbatim>\<open>mg\<close>; the flag \<^verbatim>\<open>m\<close> only changes the anchors, which they do not use.
\<close>

function replace_collect :: "regex \<Rightarrow> string \<Rightarrow> string \<times> string list" where
  "replace_collect re [] =
     (case rmatch re [] of None \<Rightarrow> ([], []) | Some t \<Rightarrow> ([], [[]]))"
| "replace_collect re (c # cs) =
     (case rmatch re (c # cs) of
        None \<Rightarrow> (case replace_collect re cs of (out, ms) \<Rightarrow> (c # out, ms))
      | Some rest \<Rightarrow>
          if length rest < length (c # cs)
          then (case replace_collect re rest of
                  (out, ms) \<Rightarrow> (out, take (length (c # cs) - length rest) (c # cs) # ms))
          else (case replace_collect re cs of (out, ms) \<Rightarrow> (c # out, [] # ms)))"
  by pat_completeness auto
termination
  by (relation "measure (\<lambda>(re, s). length s)") auto

definition commentRegex :: regex where
  "commentRegex = [Lit ''/*'', Lazy AnyChar, Lit ''*/'']"

definition scrollbarsRegex :: regex where
  "scrollbarsRegex =
     [Greedy (NoneOf ''}|,''), Lit ''::-webkit-scrollbar'', Lazy AnyChar, Lit ''{'',
      Lazy AnyChar, Lit ''}'']"

subsection \<open>Source transformation\<close>

definition stripComments :: "string \<Rightarrow> string" where
  "stripComments content = fst (replace_collect commentRegex content)"

record extracted =
  r_content :: string
  r_scrollbar :: "string list"

definition extractScrollbars :: "string \<Rightarrow> extracted" where
  "extractScrollbars content =
     (let res = replace_collect scrollbarsRegex (stripComments content)
      in \<lparr>r_content = fst res, r_scrollbar = snd res\<rparr>)"

subsection \<open>Auxiliary notions for reasoning about the two patterns\<close>

text \<open>
  The strings a pattern can match at all, whatever the priorities: a literal matches
  itself, a star matches any run of characters of its class.
\<close>

inductive lang :: "regex \<Rightarrow> string \<Rightarrow> bool" where
  lang_Nil: "lang [] []"
| lang_Lit: "lang r w \<Longrightarrow> lang (Lit l # r) (l @ w)"
| lang_Greedy0: "lang r w \<Longrightarrow> lang (Greedy k # r) w"
| lang_Greedy1: "accepts k c \<Longrightarrow> lang (Greedy k # r) w \<Longrightarrow> lang (Greedy k # r) (c # w)"
| lang_Lazy0: "lang r w \<Longrightarrow> lang (Lazy k # r) w"
| lang_Lazy1: "accepts k c \<Longrightarrow> lang (Lazy k # r) w \<Longrightarrow> lang (Lazy k # r) (c # w)"

text \<open>The input after the first \<^verbatim>\<open>*/\<close>, if there is one.\<close>

fun after_close :: "string \<Rightarrow> string option" where
  "after_close [] = None"
| "after_close [c] = None"
| "after_close (c # d # s) =
     (if c = CHR ''*'' \<and> d = CHR ''/'' then Some s else after_close (d # s))"

text \<open>No suffix of the text starts with a complete comment.\<close>

definition comment_free :: "string \<Rightarrow> bool" where
  "comment_free y = (\<forall>u v. y = u @ v \<longrightarrow> rmatch commentRegex v = None)"

subsection \<open>String operations of the host language\<close>

text \<open>
  \<^verbatim>\<open>s.lastIndexOf(ch)\<close> is \<open>-1\<close> when \<open>ch\<close> does not occur; \<^verbatim>\<open>s.substring(a, b)\<close>
  clamps both indices to the string and swaps them when \<open>a > b\<close>, so
  \<^verbatim>\<open>s.substring(0, -1)\<close> is the empty string; \<^verbatim>\<open>s.split(" ")\<close> of the empty string
  is one empty part.
\<close>

fun lastIndexOf :: "string \<Rightarrow> char \<Rightarrow> int" where
  "lastIndexOf [] ch = -1"
| "lastIndexOf (c # cs) ch =
     (let i = lastIndexOf cs ch
      in if 0 \<le> i then i + 1 else if c = ch then 0 else -1)"

definition substring :: "string \<Rightarrow> int \<Rightarrow> int \<Rightarrow> string" where
  "substring s a b =
     (let n = int (length s);
          a' = min (max a 0) n;
          b' = min (max b 0) n
      in take (nat (max a' b' - min a' b')) (drop (nat (min a' b')) s))"

definition substring_from :: "string \<Rightarrow> int \<Rightarrow> string" where
  "substring_from s a = substring s a (int (length s))"

fun split :: "string \<Rightarrow> char \<Rightarrow> string list" where
  "split [] sep = [[]]"
| "split (c # cs) sep =
     (if c = sep then [] # split cs sep
      else (case split cs sep of
              [] \<Rightarrow> [[c]]
            | p # ps \<Rightarrow> (c # p) # ps))"

fun join :: "string list \<Rightarrow> string \<Rightarrow> string" where
  "join [] sep = []"
| "join [p] sep = p"
| "join (p # q # ps) sep = p @ sep @ join (q # ps) sep"

text \<open>\<^verbatim>\<open>toUpperCase\<close> on the ASCII letters; other characters are left as they are.\<close>

definition toUpperCase :: "string \<Rightarrow> string" where
  "toUpperCase s =
     map (\<lambda>c. case map_of (zip ''abcdefghijklmnopqrstuvwxyz'' ''ABCDEFGHIJKLMNOPQRSTUVWXYZ'') c of
                Some u \<Rightarrow> u
              | None \<Rightarrow> c) s"

text \<open>A string operand of \<^verbatim>\<open>||\<close>: absent and empty strings are falsy.\<close>

fun truthy :: "string option \<Rightarrow> string option" where
  "truthy None = None"
| "truthy (Some s) = (if s = [] then None else Some s)"

subsection \<open>Themes\<close>

datatype exn = TypeError

type_synonym handle = nat

type_synonym ref = nat

text \<open>A \<^verbatim>\<open>File\<close> of the host's file system: its \<^verbatim>\<open>_path\<close> and its \<^verbatim>\<open>name\<close>.\<close>

record jsfile =
  path :: string
  fname :: string

text \<open>
  The \<^verbatim>\<open>options\<close> of the \<^verbatim>\<open>Theme\<close> constructor; a package's metadata comes in
  through the same fields.
\<close>

record options =
  title :: "string option"
  opt_name :: "string option"
  opt_className :: "string option"

definition no_options :: options where
  "no_options = \<lparr>title = None, opt_name = None, opt_className = None\<rparr>"

text \<open>
  A theme object (\<open>tfile\<close> is its \<^verbatim>\<open>file\<close>). \<open>scrollbar\<close> and \<open>css\<close> are absent until the first load sets
  them; \<open>css\<close> is the style node the theme has in the document.
\<close>

record theme =
  tfile :: jsfile
  displayName :: string
  name :: string
  className :: string
  scrollbar :: "string list option"
  css :: "handle option"

text \<open>
  The callback of \<^verbatim>\<open>_.each\<close> in \<^verbatim>\<open>toDisplayName\<close>: \<^verbatim>\<open>part[0]\<close> of an empty
  part is \<^verbatim>\<open>undefined\<close>, and calling \<^verbatim>\<open>toUpperCase\<close> on it throws.
\<close>

fun capitalize_parts :: "string list \<Rightarrow> exn + string list" where
  "capitalize_parts [] = Inr []"
| "capitalize_parts (part # parts) =
     (case part of
        [] \<Rightarrow> Inl TypeError
      | c # cs \<Rightarrow>
          (case capitalize_parts parts of
             Inl e \<Rightarrow> Inl e
           | Inr ps \<Rightarrow> Inr ((toUpperCase [c] @ substring_from part 1) # ps)))"

definition toDisplayName :: "string \<Rightarrow> exn + string" where
  "toDisplayName name0 =
     (let name1 = map (\<lambda>c. if c = CHR ''-'' then CHR '' '' else c)
                    (substring name0 0 (lastIndexOf name0 CHR ''.''));
          parts = split name1 CHR '' ''
      in case capitalize_parts parts of
           Inl e \<Rightarrow> Inl e
         | Inr ps \<Rightarrow> Inr (join ps '' ''))"

definition Theme :: "jsfile \<Rightarrow> options \<Rightarrow> exn + theme" where
  "Theme f options =
     (let fileName = fname f
      in case (case truthy (title options) of
                 Some t \<Rightarrow> Inr t
               | None \<Rightarrow> toDisplayName fileName) of
           Inl e \<Rightarrow> Inl e
         | Inr dn \<Rightarrow>
             (let nm = (case truthy (opt_name options) of
                          Some n \<Rightarrow> n
                        | None \<Rightarrow> substring fileName 0 (lastIndexOf fileName CHR ''.''));
                  cn = (case truthy (opt_className options) of
                          Some c \<Rightarrow> c
                        | None \<Rightarrow> ''theme-'' @ nm)
              in Inr \<lparr>tfile = f, displayName = dn, name = nm, className = cn,
                      scrollbar = None, css = None\<rparr>))"

subsection \<open>The module's state and its collaborators\<close>

text \<open>
  Calls to the collaborators (file system, less parser, style surface of the document,
  editor and view) are recorded in order. \<open>AddEmbeddedStyleSheet css node\<close> is
  \<^verbatim>\<open>ExtensionUtils.addEmbeddedStyleSheet(css)\<close> returning \<open>node\<close>;
  \<open>RemoveNode node\<close> is \<^verbatim>\<open>$(node).remove()\<close>.
\<close>

datatype event =
    FsExists string
  | FsGetContents string
  | FsReadAsText string
  | LessParse string string
  | AddEmbeddedStyleSheet string handle
  | RemoveNode handle
  | GetActiveEditor
  | SetDocumentMode
  | UpdateThemes
  | CmRefresh
  | ResizeEditor

text \<open>
  Theme objects are mutated in place and shared between \<^verbatim>\<open>loadedThemes\<close> and the
  promise chains, so they live in a store \<open>heap\<close> and are passed by reference.
  \<open>loadedThemes\<close> is the registry object, \<open>styles\<close> the style nodes of the document
  in insertion order, \<open>trace\<close> the collaborator calls so far. A new theme object
  and a new style node get the next unused reference and handle. \<open>loadedThemes\<close>
  holds what assignments to the registry have stored; how a name is read from it is
  \<open>registry_lookup\<close> below.
\<close>

record world =
  heap :: "ref \<Rightarrow> theme"
  next_ref :: ref
  loadedThemes :: "string \<rightharpoonup> ref"
  styles :: "(handle \<times> string) list"
  next_handle :: handle
  trace :: "event list"

text \<open>A directory entry as \<^verbatim>\<open>getContents\<close> lists it.\<close>

record entry =
  e_name :: string
  isFile :: bool

text \<open>
  What the collaborators answer: \<^verbatim>\<open>prefs.get("themes")\<close>; the arguments
  \<^verbatim>\<open>(err, exists)\<close> and \<^verbatim>\<open>(err, entries)\<close> that the file system passes to the
  callbacks of \<^verbatim>\<open>file.exists\<close> and \<^verbatim>\<open>getContents\<close>; the outcome of
  \<^verbatim>\<open>FileUtils.readAsText\<close>; the outcome of the less parser for a file name and a
  source text (\<open>Inl\<close> the error passed to the callback, \<open>Inr\<close> the text of
  \<^verbatim>\<open>tree.toCSS()\<close>); and whether there is an active editor with a CodeMirror
  instance. File system errors are the host's error strings.
\<close>

record env =
  prefs_themes :: "string list option"
  fs_exists :: "string \<Rightarrow> string option \<times> bool"
  fs_getContents :: "string \<Rightarrow> string option \<times> entry list option"
  fs_readAsText :: "string \<Rightarrow> string + string"
  less_parse :: "string \<Rightarrow> string \<Rightarrow> string + string"
  activeEditor :: bool

text \<open>
  The state of a \<^verbatim>\<open>$.Deferred\<close> once every callback has run. \<open>Pending\<close> means
  that it never settles.
\<close>

datatype ('e, 'a) promise = Pending | Resolved 'a | Rejected 'e

text \<open>
  Rejection values: an error of the file system, an error of the less parser, and the
  \<^verbatim>\<open>{path, error}\<close> object of \<^verbatim>\<open>loadDirectory\<close>.
\<close>

datatype reason =
    IOError string
  | CompileError string
  | PathError "string option" string

text \<open>\<^verbatim>\<open>$.when.apply(undefined, promises)\<close>.\<close>

fun when_all :: "('e, 'a) promise list \<Rightarrow> ('e, 'a list) promise" where
  "when_all [] = Resolved []"
| "when_all (p # ps) =
     (case p of
        Rejected e \<Rightarrow> Rejected e
      | Pending \<Rightarrow> (case when_all ps of Rejected e \<Rightarrow> Rejected e | _ \<Rightarrow> Pending)
      | Resolved v \<Rightarrow>
          (case when_all ps of
             Resolved vs \<Rightarrow> Resolved (v # vs)
           | Rejected e \<Rightarrow> Rejected e
           | Pending \<Rightarrow> Pending))"

definition log_event :: "event \<Rightarrow> world \<Rightarrow> world" where
  "log_event ev w = w\<lparr>trace := trace w @ [ev]\<rparr>"

definition defaultTheme :: string where
  "defaultTheme = ''default''"

definition validExtensions :: "string list" where
  "validExtensions = [''css'', ''less'']"

subsection \<open>Operations\<close>

text \<open>
  \<^verbatim>\<open>lessifyTheme\<close>: the source handed to the parser is the content wrapped in the
  theme's class; the promise is rejected with the parser's error or resolved with the
  CSS text.
\<close>

definition lessifyTheme :: "env \<Rightarrow> string \<Rightarrow> theme \<Rightarrow> world \<Rightarrow> (reason, string) promise \<times> world" where
  "lessifyTheme en content th w =
     (let src = ''.'' @ className th @ ''{'' @ content @ ''}'';
          w1 = log_event (LessParse (path (tfile th)) src) w
      in case less_parse en (path (tfile th)) src of
           Inl err \<Rightarrow> (Rejected (CompileError err), w1)
         | Inr style \<Rightarrow> (Resolved style, w1))"

text \<open>
  \<^verbatim>\<open>FileUtils.getFileExtension\<close> of the host: the text after the last dot of the
  name, empty when there is no dot.
\<close>

definition getFileExtension :: "string \<Rightarrow> string" where
  "getFileExtension nm =
     (let idx = lastIndexOf nm CHR ''.''
      in if idx = -1 then [] else substring_from nm (idx + 1))"

definition isFileTypeValid :: "entry \<Rightarrow> bool" where
  "isFileTypeValid e = (isFile e \<and> getFileExtension (e_name e) \<in> set validExtensions)"

text \<open>
  The value of \<^verbatim>\<open>loadedThemes[item]\<close>. The registry is a plain object, so a name
  without an entry of its own is looked up in the prototype chain: \<open>Inherited item\<close>
  stands for the truthy value found there, \<open>Undefined\<close> for \<^verbatim>\<open>undefined\<close> and for
  any other falsy value.
\<close>

datatype jsval = ThemeObj ref | Inherited string | Undefined

text \<open>The properties of \<^verbatim>\<open>Object.prototype\<close> in the host's engine; all are truthy.\<close>

definition object_prototype_names :: "string list" where
  "object_prototype_names =
     [''constructor'', ''toString'', ''toLocaleString'', ''valueOf'', ''hasOwnProperty'',
      ''isPrototypeOf'', ''propertyIsEnumerable'', ''__proto__'', ''__defineGetter__'',
      ''__defineSetter__'', ''__lookupGetter__'', ''__lookupSetter__'']"

text \<open>The properties of a theme object whose values are truthy.\<close>

definition theme_properties :: "theme \<Rightarrow> string list" where
  "theme_properties th =
     [''file''] @
     (if displayName th = [] then [] else [''displayName'']) @
     (if name th = [] then [] else [''name'']) @
     (if className th = [] then [] else [''className'']) @
     (if scrollbar th = None then [] else [''scrollbar'']) @
     (if css th = None then [] else [''css''])"

text \<open>
  An assignment \<^verbatim>\<open>loadedThemes["__proto__"] = theme\<close> adds no entry: it makes the
  theme the prototype of the registry, and reading that name gives the theme back. The
  entry of \<open>loadedThemes\<close> under \<^verbatim>\<open>__proto__\<close> stands for that prototype: with it
  the registry inherits the theme's properties, besides those of
  \<^verbatim>\<open>Object.prototype\<close>, which end every chain.
\<close>

definition registry_lookup :: "world \<Rightarrow> string \<Rightarrow> jsval" where
  "registry_lookup w item =
     (case loadedThemes w item of
        Some r \<Rightarrow> ThemeObj r
      | None \<Rightarrow>
          if item \<in> set object_prototype_names then Inherited item
          else (case loadedThemes w ''__proto__'' of
                  None \<Rightarrow> Undefined
                | Some t \<Rightarrow>
                    if item \<in> set (theme_properties (heap w t)) then Inherited item
                    else Undefined))"

text \<open>
  \<^verbatim>\<open>getCurrentThemes\<close>: \<^verbatim>\<open>prefs.get("themes").slice(0)\<close> throws when the preference
  is absent; each name gives \<^verbatim>\<open>loadedThemes[item] || loadedThemes[defaultTheme]\<close>.
\<close>

definition getCurrentThemes :: "env \<Rightarrow> world \<Rightarrow> exn + jsval list" where
  "getCurrentThemes en w =
     (case prefs_themes en of
        None \<Rightarrow> Inl TypeError
      | Some items \<Rightarrow>
          Inr (map (\<lambda>item. case registry_lookup w item of
                              Undefined \<Rightarrow> registry_lookup w defaultTheme
                            | ThemeObj r \<Rightarrow> ThemeObj r
                            | Inherited v \<Rightarrow> Inherited v) items))"

text \<open>
  The promise chain that \<^verbatim>\<open>loadCurrentThemes\<close> builds for one theme, after
  \<^verbatim>\<open>readAsText\<close> has been called: the continuation on the text read, the compile
  step, the insertion of the style sheet, and the last step, which removes the theme's
  previous style node and stores the new one.
\<close>

definition loadTheme :: "env \<Rightarrow> ref \<Rightarrow> world \<Rightarrow> (reason, ref) promise \<times> world" where
  "loadTheme en r w =
     (case fs_readAsText en (path (tfile (heap w r))) of
        Inl err \<Rightarrow> (Rejected (IOError err), w)
      | Inr content \<Rightarrow>
          (let result = extractScrollbars content;
               w1 = w\<lparr>heap := (heap w)(r := (heap w r)\<lparr>scrollbar := Some (r_scrollbar result)\<rparr>)\<rparr>
           in case lessifyTheme en (r_content result) (heap w1 r) w1 of
                (Rejected e, w2) \<Rightarrow> (Rejected e, w2)
              | (Pending, w2) \<Rightarrow> (Pending, w2)
              | (Resolved style, w2) \<Rightarrow>
                  (let styleNode = next_handle w2;
                       w3 = log_event (AddEmbeddedStyleSheet style styleNode)
                              (w2\<lparr>styles := styles w2 @ [(styleNode, style)],
                                  next_handle := Suc styleNode\<rparr>);
                       w4 = (case css (heap w3 r) of
                               Some old \<Rightarrow>
                                 log_event (RemoveNode old)
                                   (w3\<lparr>styles := filter (\<lambda>(h, s). h \<noteq> old) (styles w3)\<rparr>)
                             | None \<Rightarrow> w3);
                       w5 = w4\<lparr>heap := (heap w4)(r := (heap w4 r)\<lparr>css := Some styleNode\<rparr>)\<rparr>
                   in (Resolved r, w5))))"

text \<open>The chains run to completion one after the other, in the order of the list.\<close>

fun loadThemes :: "env \<Rightarrow> ref list \<Rightarrow> world \<Rightarrow> (reason, ref) promise list \<times> world" where
  "loadThemes en [] w = ([], w)"
| "loadThemes en (r # rs) w =
     (case loadTheme en r w of
        (p, w1) \<Rightarrow> (case loadThemes en rs w1 of (ps, w2) \<Rightarrow> (p # ps, w2)))"

text \<open>
  The theme objects at the front of a list of values, up to the first value that is
  not a theme object.
\<close>

fun theme_refs :: "jsval list \<Rightarrow> ref list" where
  "theme_refs [] = []"
| "theme_refs (ThemeObj r # vs) = r # theme_refs vs"
| "theme_refs (Inherited v # vs) = []"
| "theme_refs (Undefined # vs) = []"

text \<open>
  \<^verbatim>\<open>loadCurrentThemes\<close>: the callback of \<^verbatim>\<open>_.map\<close> calls \<^verbatim>\<open>readAsText\<close> for
  each current theme in turn and throws at the first value that is not a theme object:
  for \<^verbatim>\<open>undefined\<close> at \<^verbatim>\<open>theme.file\<close>, for an inherited value in the host's
  \<^verbatim>\<open>readAsText\<close>, which reads a property of its argument, here \<^verbatim>\<open>undefined\<close>. The
  reads already requested still complete and their chains run.
\<close>

definition loadCurrentThemes :: "env \<Rightarrow> world \<Rightarrow> (exn + (reason, ref list) promise) \<times> world" where
  "loadCurrentThemes en w =
     (case getCurrentThemes en w of
        Inl e \<Rightarrow> (Inl e, w)
      | Inr themes \<Rightarrow>
          (let started = theme_refs themes;
               w1 = w\<lparr>trace := trace w @ map (\<lambda>r. FsReadAsText (path (tfile (heap w r)))) started\<rparr>
           in case loadThemes en started w1 of
                (ps, w2) \<Rightarrow>
                  if length started < length themes then (Inl TypeError, w2)
                  else (Inr (when_all ps), w2)))"

text \<open>
  The callback of \<^verbatim>\<open>refresh\<close>: with an active editor the view gets its document
  mode and themes, and \<^verbatim>\<open>refreshEditor\<close> refreshes CodeMirror and resizes the editor
  after its delay.
\<close>

definition updateView :: "env \<Rightarrow> world \<Rightarrow> world" where
  "updateView en w =
     (let w1 = log_event GetActiveEditor w
      in if activeEditor en
         then w1\<lparr>trace := trace w1 @ [SetDocumentMode, UpdateThemes, CmRefresh, ResizeEditor]\<rparr>
         else w1)"

text \<open>
  \<^verbatim>\<open>refresh(force)\<close>; \<open>force = None\<close> is the call without an argument. The first
  component is the exception that \<^verbatim>\<open>loadCurrentThemes\<close> throws, if it does; a
  rejected load is dropped.
\<close>

definition refresh :: "env \<Rightarrow> bool option \<Rightarrow> world \<Rightarrow> exn option \<times> world" where
  "refresh en force w =
     (if force = Some True
      then (case loadCurrentThemes en w of
              (Inl e, w1) \<Rightarrow> (Some e, w1)
            | (Inr (Resolved ts), w1) \<Rightarrow> (None, updateView en w1)
            | (Inr p, w1) \<Rightarrow> (None, w1))
      else (None, updateView en w))"

text \<open>
  \<^verbatim>\<open>FileSystem.getFileForPath\<close> of the host: the name of the file is the last
  segment of its path.
\<close>

fun last_segment :: "string \<Rightarrow> string" where
  "last_segment [] = []"
| "last_segment (c # cs) = (if CHR ''/'' \<in> set cs then last_segment cs
                            else if c = CHR ''/'' then cs else c # cs)"

definition getFileForPath :: "string \<Rightarrow> jsfile" where
  "getFileForPath p = \<lparr>path = p, fname = last_segment p\<rparr>"

text \<open>
  The result of \<^verbatim>\<open>loadFile\<close>: the state of the promise it returns, and the
  exception, if any, that escapes from the callback of \<^verbatim>\<open>file.exists\<close>.
\<close>

record loaded =
  l_promise :: "(reason, ref) promise"
  l_uncaught :: "exn option"

definition loadFile :: "env \<Rightarrow> string \<Rightarrow> options option \<Rightarrow> world \<Rightarrow> loaded \<times> world" where
  "loadFile en fileName options0 w =
     (let options = (case options0 of None \<Rightarrow> no_options | Some opts \<Rightarrow> opts);
          f = getFileForPath fileName;
          currentThemes = (case prefs_themes en of None \<Rightarrow> [] | Some ts \<Rightarrow> ts);
          w1 = log_event (FsExists fileName) w
      in case fs_exists en fileName of
           (err, exists) \<Rightarrow>
             if exists
             then (case Theme f options of
                     Inl e \<Rightarrow> (\<lparr>l_promise = Pending, l_uncaught = Some e\<rparr>, w1)
                   | Inr th \<Rightarrow>
                       (let r = next_ref w1;
                            w2 = w1\<lparr>heap := (heap w1)(r := th), next_ref := Suc r,
                                    loadedThemes := (loadedThemes w1)(name th \<mapsto> r)\<rparr>
                        in if name th \<in> set currentThemes
                           then (case refresh en (Some True) w2 of
                                   (Some e, w3) \<Rightarrow> (\<lparr>l_promise = Pending, l_uncaught = Some e\<rparr>, w3)
                                 | (None, w3) \<Rightarrow> (\<lparr>l_promise = Resolved r, l_uncaught = None\<rparr>, w3))
                           else (\<lparr>l_promise = Resolved r, l_uncaught = None\<rparr>, w2)))
             else (case err of
                     Some e \<Rightarrow> (\<lparr>l_promise = Rejected (IOError e), l_uncaught = None\<rparr>, w1)
                   | None \<Rightarrow> (\<lparr>l_promise = Pending, l_uncaught = None\<rparr>, w1)))"

text \<open>\<^verbatim>\<open>loadThemesFiles\<close> of \<^verbatim>\<open>loadDirectory\<close>: one \<^verbatim>\<open>loadFile\<close> per listed file.\<close>

fun loadFiles :: "env \<Rightarrow> string list \<Rightarrow> world \<Rightarrow> loaded list \<times> world" where
  "loadFiles en [] w = ([], w)"
| "loadFiles en (p # ps) w =
     (case loadFile en p None w of
        (l, w1) \<Rightarrow> (case loadFiles en ps w1 of (ls, w2) \<Rightarrow> (l # ls, w2)))"

text \<open>
  \<^verbatim>\<open>loadDirectory(path)\<close>; \<open>path = None\<close> is \<^verbatim>\<open>undefined\<close>. The result is the state
  of the returned promise and the exceptions that escaped from callbacks.
\<close>

definition loadDirectory ::
  "env \<Rightarrow> string option \<Rightarrow> world \<Rightarrow> ((reason, ref list) promise \<times> exn list) \<times> world" where
  "loadDirectory en path0 w =
     (case truthy path0 of
        None \<Rightarrow> ((Rejected (PathError path0 ''Path not defined''), []), w)
      | Some p \<Rightarrow>
          (let w1 = log_event (FsGetContents p) w
           in case fs_getContents en p of
                (err, entries0) \<Rightarrow>
                  (let entries = (case entries0 of None \<Rightarrow> [] | Some es \<Rightarrow> es);
                       files = map e_name (filter isFileTypeValid entries)
                   in case err of
                        Some e \<Rightarrow> ((Rejected (PathError (Some p) e), []), w1)
                      | None \<Rightarrow>
                          (case loadFiles en (map (\<lambda>themeFile. p @ ''/'' @ themeFile) files) w1 of
                             (ls, w2) \<Rightarrow>
                               ((when_all (map l_promise ls),
                                 concat (map (\<lambda>l. case l_uncaught l of None \<Rightarrow> [] | Some e \<Rightarrow> [e]) ls)),
                                w2)))))"

subsection \<open>Initial and example states\<close>

text \<open>
  The state of the module when it is loaded (\<^verbatim>\<open>loadedThemes = {}\<close>), and a state
  with one theme \<^verbatim>\<open>a\<close> that has been applied once: its style node \<open>0\<close> is in the
  document. The example file systems hold the file of that theme; the less parser of
  \<open>ex_env\<close> returns its source as the CSS, the one of \<open>ex_env_broken\<close> fails.
\<close>

definition blank_theme :: theme where
  "blank_theme =
     \<lparr>tfile = \<lparr>path = [], fname = []\<rparr>, displayName = [], name = [], className = [],
      scrollbar = None, css = None\<rparr>"

definition init_world :: world where
  "init_world =
     \<lparr>heap = (\<lambda>r. blank_theme), next_ref = 0, loadedThemes = Map.empty, styles = [],
      next_handle = 0, trace = []\<rparr>"

definition ex_theme :: theme where
  "ex_theme =
     \<lparr>tfile = \<lparr>path = ''/themes/a.css'', fname = ''a.css''\<rparr>, displayName = ''A'',
      name = ''a'', className = ''theme-a'', scrollbar = Some [], css = Some 0\<rparr>"

definition ex_world :: world where
  "ex_world =
     \<lparr>heap = (\<lambda>r. blank_theme)(0 := ex_theme), next_ref = 1,
      loadedThemes = [''a'' \<mapsto> 0], styles = [(0, ''.theme-a{}'')],
      next_handle = 1, trace = []\<rparr>"

definition ex_env :: env where
  "ex_env =
     \<lparr>prefs_themes = Some [''a''],
      fs_exists = (\<lambda>p. (None, True)),
      fs_getContents = (\<lambda>p. (None, Some [])),
      fs_readAsText = (\<lambda>p. Inr ''body::-webkit-scrollbar{width:1px} body{color:red}''),
      less_parse = (\<lambda>p src. Inr src),
      activeEditor = True\<rparr>"

definition ex_env_broken :: env where
  "ex_env_broken = ex_env\<lparr>less_parse := (\<lambda>p src. Inl ''parse error'')\<rparr>"

section \<open>Properties\<close>

subsection \<open>The matcher\<close>

lemma rmatch_sound: "rmatch re s = Some t \<Longrightarrow> \<exists>m. s = m @ t \<and> lang re m"
proof (induction re s arbitrary: t rule: rmatch.induct)
  case (1 s)
  then show ?case by (auto intro: lang.intros)
next
  case (2 l r s)
  from "2.prems" have pl: "prefix l s" and rm: "rmatch r (drop (length l) s) = Some t"
    by (auto split: if_splits)
  from "2.IH"[OF pl rm] obtain m where m: "drop (length l) s = m @ t" "lang r m" by blast
  from pl have "s = l @ drop (length l) s" by (auto simp: prefix_def)
  with m have "s = (l @ m) @ t" by simp
  moreover have "lang (Lit l # r) (l @ m)" using m(2) by (rule lang_Lit)
  ultimately show ?case by blast
next
  case (3 k r)
  then obtain m where "[] = m @ t" "lang r m" by auto
  then show ?case by (auto intro: lang_Greedy0)
next
  case (4 k r c cs)
  show ?case
  proof (cases "accepts k c")
    case True
    show ?thesis
    proof (cases "rmatch (Greedy k # r) cs")
      case None
      with True "4.prems" have "rmatch r (c # cs) = Some t" by simp
      from "4.IH"(2)[OF True None this] show ?thesis by (auto intro: lang_Greedy0)
    next
      case (Some t')
      with True "4.prems" have "t' = t" by simp
      with Some "4.IH"(1)[OF True] obtain m where "cs = m @ t" "lang (Greedy k # r) m" by blast
      then have "c # cs = (c # m) @ t" "lang (Greedy k # r) (c # m)"
        using True by (auto intro: lang_Greedy1)
      then show ?thesis by blast
    qed
  next
    case False
    with "4.prems" have "rmatch r (c # cs) = Some t" by simp
    from "4.IH"(3)[OF False this] show ?thesis by (auto intro: lang_Greedy0)
  qed
next
  case (5 k r s)
  show ?case
  proof (cases "rmatch r s")
    case (Some t')
    with "5.prems" have "t' = t" by simp
    with Some "5.IH"(1) show ?thesis by (auto intro: lang_Lazy0)
  next
    case None
    with "5.prems" obtain c cs where s: "s = c # cs" and ac: "accepts k c"
      and rm: "rmatch (Lazy k # r) cs = Some t"
      by (auto split: list.splits if_splits)
    from "5.IH"(2)[OF None s ac rm] obtain m where "cs = m @ t" "lang (Lazy k # r) m" by blast
    then have "s = (c # m) @ t" "lang (Lazy k # r) (c # m)"
      using s ac by (auto intro: lang_Lazy1)
    then show ?thesis by blast
  qed
qed

lemma rmatch_complete: "lang re m \<Longrightarrow> rmatch re (m @ t) \<noteq> None"
proof (induction re m rule: lang.induct)
  case (lang_Greedy0 r w k)
  then show ?case by (cases "w @ t") (auto split: option.splits)
next
  case (lang_Lazy0 r w k)
  then show ?case by (auto split: option.splits)
qed (auto split: option.splits)

subsection \<open>Comment stripping\<close>

lemma rmatch_shorter: "rmatch re s = Some t \<Longrightarrow> length t \<le> length s"
  by (drule rmatch_sound) auto

lemma lazy_close: "rmatch [Lazy AnyChar, Lit ''*/''] s = after_close s"
  by (induction s rule: after_close.induct) (auto split: option.splits)

lemma rmatch_comment:
  "rmatch commentRegex s =
     (case s of
        c # d # t \<Rightarrow> if c = CHR ''/'' \<and> d = CHR ''*'' then after_close t else None
      | _ \<Rightarrow> None)"
proof -
  have eq: "rmatch commentRegex s =
          (if prefix ''/*'' s then rmatch [Lazy AnyChar, Lit ''*/''] (drop (length ''/*'') s) else None)"
    unfolding commentRegex_def by (subst rmatch.simps(2)) (rule refl)
  show ?thesis
  proof (cases s)
    case Nil
    then show ?thesis unfolding eq by simp
  next
    case (Cons c s')
    then show ?thesis unfolding eq lazy_close by (cases s') auto
  qed
qed

lemma after_close_Some: "after_close s = Some t \<Longrightarrow> \<exists>b. s = b @ ''*/'' @ t \<and> length t < length s"
proof (induction s rule: after_close.induct)
  case (3 c d s)
  show ?case
  proof (cases "c = CHR ''*'' \<and> d = CHR ''/''")
    case True
    with 3 show ?thesis by auto
  next
    case False
    with 3 obtain b where "d # s = b @ ''*/'' @ t" "length t < length (d # s)" by auto
    then have "c # d # s = (c # b) @ ''*/'' @ t" "length t < length (c # d # s)" by auto
    then show ?thesis by blast
  qed
qed auto

lemma after_close_None: "after_close s = None \<longleftrightarrow> \<not> sublist ''*/'' s"
  by (induction s rule: after_close.induct) (auto simp: sublist_Cons_right)

lemma after_close_append: "after_close u = Some t \<Longrightarrow> after_close (u @ v) = Some (t @ v)"
  by (induction u rule: after_close.induct) (auto split: if_splits)

lemma rmatch_comment_shorter: "rmatch commentRegex s = Some t \<Longrightarrow> length t < length s"
  by (auto simp: rmatch_comment split: list.splits if_splits dest!: after_close_Some)

lemma stripComments_Nil: "stripComments [] = []"
  by (simp add: stripComments_def rmatch_comment)

lemma stripComments_Cons:
  "stripComments (c # cs) =
     (case rmatch commentRegex (c # cs) of
        None \<Rightarrow> c # stripComments cs
      | Some rest \<Rightarrow> stripComments rest)"
proof (cases "rmatch commentRegex (c # cs)")
  case None
  then show ?thesis
    by (simp add: stripComments_def split: prod.splits)
next
  case (Some rest)
  then have "length rest < length (c # cs)" by (rule rmatch_comment_shorter)
  with Some show ?thesis
    by (simp add: stripComments_def split: prod.splits)
qed

lemma rmatch_comment_needs_close:
  "\<not> sublist ''*/'' s \<Longrightarrow> rmatch commentRegex s = None"
proof -
  assume n: "\<not> sublist ''*/'' s"
  show ?thesis
  proof (cases "rmatch commentRegex s")
    case (Some t)
    then obtain c d u where s: "s = c # d # u" and ac: "after_close u = Some t"
      by (auto simp: rmatch_comment split: list.splits if_splits)
    from ac have "sublist ''*/'' u" using after_close_None[of u] by simp
    then have "sublist ''*/'' s" unfolding s by (simp add: sublist_Cons_right)
    with n show ?thesis by simp
  qed simp
qed

lemma stripComments_no_close: "\<not> sublist ''*/'' s \<Longrightarrow> stripComments s = s"
proof (induction s)
  case Nil
  show ?case by (rule stripComments_Nil)
next
  case (Cons c cs)
  from Cons.prems have "\<not> sublist ''*/'' cs" by (simp add: sublist_Cons_right)
  with Cons.IH have "stripComments cs = cs" by simp
  moreover from Cons.prems have "rmatch commentRegex (c # cs) = None"
    by (rule rmatch_comment_needs_close)
  ultimately show ?case by (simp add: stripComments_Cons)
qed

lemma comment_free_Cons: "comment_free (c # cs) \<Longrightarrow> comment_free cs"
  unfolding comment_free_def by (metis append_Cons)

lemma comment_free_head: "comment_free y \<Longrightarrow> rmatch commentRegex y = None"
  unfolding comment_free_def by (metis append_Nil)

lemma comment_free_ConsI:
  "rmatch commentRegex (c # cs) = None \<Longrightarrow> comment_free cs \<Longrightarrow> comment_free (c # cs)"
  unfolding comment_free_def by (auto simp: Cons_eq_append_conv)

lemma comment_free_Nil: "comment_free []"
  unfolding comment_free_def by (simp add: rmatch_comment)

lemma stripComments_comment_free: "comment_free y \<Longrightarrow> stripComments y = y"
proof (induction y)
  case Nil
  show ?case by (rule stripComments_Nil)
next
  case (Cons c cs)
  then show ?case
    by (simp add: stripComments_Cons comment_free_head comment_free_Cons)
qed

lemma sublist_suffix_rmatch:
  "rmatch re s = Some t \<Longrightarrow> sublist p t \<Longrightarrow> sublist p s"
  by (drule rmatch_sound) (auto simp: sublist_append)

lemma strip_comment_free:
  "\<not> sublist ''//*'' x \<Longrightarrow> comment_free (stripComments x)"
proof (induction x rule: length_induct)
  case (1 x)
  show ?case
  proof (cases x)
    case Nil
    then show ?thesis by (simp add: stripComments_Nil comment_free_Nil)
  next
    case (Cons c cs)
    show ?thesis
    proof (cases "rmatch commentRegex x")
      case (Some rest)
      then have "length rest < length x" by (rule rmatch_comment_shorter)
      moreover have "\<not> sublist ''//*'' rest"
        using "1.prems" sublist_suffix_rmatch[OF Some] by blast
      ultimately have "comment_free (stripComments rest)" using "1.IH" by blast
      with Some Cons show ?thesis by (simp add: stripComments_Cons)
    next
      case None
      have ncs: "\<not> sublist ''//*'' cs"
        using "1.prems" Cons by (simp add: sublist_Cons_right)
      then have cf: "comment_free (stripComments cs)" using "1.IH" Cons by simp
      have sx: "stripComments x = c # stripComments cs"
        using None Cons by (simp add: stripComments_Cons)
      have "rmatch commentRegex (c # stripComments cs) = None"
      proof (cases cs)
        case Nil
        then show ?thesis by (simp add: stripComments_Nil rmatch_comment)
      next
        case cs: (Cons d ds)
        show ?thesis
        proof (cases "rmatch commentRegex cs")
          case inner: (Some rest)
          then have "prefix ''/*'' cs"
            by (auto simp: rmatch_comment split: list.splits if_splits)
          with "1.prems" Cons have "c \<noteq> CHR ''/''"
            by (auto simp: sublist_Cons_right prefix_def)
          then show ?thesis by (simp add: rmatch_comment split: list.splits)
        next
          case inner: None
          then have scs: "stripComments cs = d # stripComments ds"
            using cs by (simp add: stripComments_Cons)
          show ?thesis
          proof (cases "c = CHR ''/'' \<and> d = CHR ''*''")
            case True
            with None Cons cs have "after_close ds = None"
              by (simp add: rmatch_comment)
            then have nc: "\<not> sublist ''*/'' ds" by (simp add: after_close_None)
            then have "stripComments ds = ds" by (rule stripComments_no_close)
            with scs None Cons cs show ?thesis by simp
          next
            case False
            then show ?thesis unfolding scs by (auto simp: rmatch_comment)
          qed
        qed
      qed
      with cf sx show ?thesis by (simp add: comment_free_ConsI)
    qed
  qed
qed

text \<open>
  Claim C3 says that \<open>stripComments\<close> is idempotent on every input. It is not:
  deleting a comment can bring a \<^verbatim>\<open>/\<close> and a \<^verbatim>\<open>*\<close> together, and the second
  pass deletes the comment they open. In \<^verbatim>\<open>//**/**/\<close> the first pass deletes the
  \<^verbatim>\<open>/**/\<close> at index 1 and leaves \<^verbatim>\<open>/**/\<close>, which the second pass deletes.
\<close>

theorem stripComments_not_idempotent:
  "stripComments (stripComments ''//**/**/'') \<noteq> stripComments ''//**/**/''"
  by (simp add: stripComments_Cons stripComments_Nil rmatch_comment)

text \<open>
  Claim C3, amended: \<open>stripComments (stripComments x) = stripComments x\<close> for every
  input \<open>x\<close> in which no \<^verbatim>\<open>/\<close> stands immediately before a comment opener
  \<^verbatim>\<open>/*\<close>, that is, which does not contain \<^verbatim>\<open>//*\<close>.
\<close>

theorem stripComments_idempotent:
  "\<not> sublist ''//*'' x \<Longrightarrow> stripComments (stripComments x) = stripComments x"
  by (rule stripComments_comment_free) (rule strip_comment_free)

theorem stripComments_idempotent_witness:
  "\<not> sublist ''//*'' ''a /* b */ c /* d */ /* e'' \<and>
   stripComments (stripComments ''a /* b */ c /* d */ /* e'') =
     stripComments ''a /* b */ c /* d */ /* e'' \<and>
   stripComments ''a /* b */ c /* d */ /* e'' = ''a  c  /* e''"
proof -
  have h: "\<not> sublist ''//*'' ''a /* b */ c /* d */ /* e''"
    by (simp add: sublist_Cons_right)
  have v: "stripComments ''a /* b */ c /* d */ /* e'' = ''a  c  /* e''"
    by (simp add: stripComments_Cons stripComments_Nil rmatch_comment)
  from stripComments_idempotent[OF h] h v show ?thesis by blast
qed

lemma after_close_first:
  "\<not> sublist ''*/'' c \<Longrightarrow> after_close (c @ ''*/'' @ t) = Some t"
  by (induction c rule: after_close.induct) (auto simp: sublist_Cons_right)

lemma strip_past_comment:
  assumes "\<not> sublist ''/*'' (stripComments pre)" and "\<not> sublist ''*/'' c"
  shows "stripComments (pre @ ''/*'' @ c @ ''*/'' @ post) = stripComments pre @ stripComments post"
  using assms(1)
proof (induction pre rule: length_induct)
  case (1 pre)
  let ?y = "''/*'' @ c @ ''*/'' @ post"
  show ?case
  proof (cases pre)
    case Nil
    have "rmatch commentRegex ?y = Some post"
      using after_close_first[OF assms(2), of post] by (simp add: rmatch_comment)
    then have "stripComments ?y = stripComments post"
      using stripComments_Cons[of "CHR ''/''" "CHR ''*'' # c @ ''*/'' @ post"] by simp
    with Nil show ?thesis by (simp add: stripComments_Nil)
  next
    case (Cons a as)
    show ?thesis
    proof (cases "rmatch commentRegex pre")
      case (Some rest)
      then obtain u where pre: "pre = CHR ''/'' # CHR ''*'' # u" and ac: "after_close u = Some rest"
        by (auto simp: rmatch_comment split: list.splits if_splits)
      have "rmatch commentRegex (pre @ ?y) = Some (rest @ ?y)"
        unfolding pre using after_close_append[OF ac, of ?y] by (simp add: rmatch_comment)
      then have 1: "stripComments (pre @ ?y) = stripComments (rest @ ?y)"
        using Cons stripComments_Cons[of a "as @ ?y"] by simp
      have 2: "stripComments pre = stripComments rest"
        using Some Cons by (simp add: stripComments_Cons)
      have "length rest < length pre" using Some by (rule rmatch_comment_shorter)
      moreover have "\<not> sublist ''/*'' (stripComments rest)" using "1.prems" 2 by simp
      ultimately have "stripComments (rest @ ?y) = stripComments rest @ stripComments post"
        using "1.IH" by blast
      with 1 2 show ?thesis by simp
    next
      case None
      have sp: "stripComments pre = a # stripComments as"
        using None Cons by (simp add: stripComments_Cons)
      have nas: "\<not> sublist ''/*'' (stripComments as)"
        using "1.prems" sp by (simp add: sublist_Cons_right)
      have "rmatch commentRegex (a # as @ ?y) = None"
      proof (cases as)
        case Nil
        then show ?thesis by (simp add: rmatch_comment)
      next
        case as: (Cons d ds)
        have "\<not> (a = CHR ''/'' \<and> d = CHR ''*'')"
        proof
          assume ad: "a = CHR ''/'' \<and> d = CHR ''*''"
          then have "stripComments as = d # stripComments ds"
            using as by (simp add: stripComments_Cons rmatch_comment split: list.splits)
          with sp ad have "prefix ''/*'' (stripComments pre)" by simp
          with "1.prems" show False by blast
        qed
        then show ?thesis using as by (auto simp: rmatch_comment)
      qed
      then have 1: "stripComments (pre @ ?y) = a # stripComments (as @ ?y)"
        using Cons stripComments_Cons[of a "as @ ?y"] by simp
      have "stripComments (as @ ?y) = stripComments as @ stripComments post"
        using "1.IH" nas Cons by simp
      with 1 sp show ?thesis by simp
    qed
  qed
qed

subsection \<open>Scrollbar extraction\<close>

lemma lang_Nil_iff: "lang [] m \<longleftrightarrow> m = []"
  by (auto elim: lang.cases intro: lang.intros)

lemma lang_Lit_iff: "lang (Lit l # r) m \<longleftrightarrow> (\<exists>w. m = l @ w \<and> lang r w)"
  by (auto elim: lang.cases intro: lang.intros)

lemma lang_GreedyD:
  "lang re m \<Longrightarrow> re = Greedy k # r \<Longrightarrow>
     \<exists>a w. m = a @ w \<and> (\<forall>c\<in>set a. accepts k c) \<and> lang r w"
proof (induction re m rule: lang.induct)
  case (lang_Greedy0 r' w k')
  then have "w = [] @ w \<and> (\<forall>c\<in>set []. accepts k c) \<and> lang r w" by simp
  then show ?case by blast
next
  case (lang_Greedy1 k' c r' w)
  then obtain a w' where "w = a @ w'" "\<forall>c\<in>set a. accepts k c" "lang r w'" by auto
  with lang_Greedy1 have "c # w = (c # a) @ w' \<and> (\<forall>c\<in>set (c # a). accepts k c) \<and> lang r w'"
    by simp
  then show ?case by blast
qed auto

lemma lang_LazyD:
  "lang re m \<Longrightarrow> re = Lazy k # r \<Longrightarrow>
     \<exists>a w. m = a @ w \<and> (\<forall>c\<in>set a. accepts k c) \<and> lang r w"
proof (induction re m rule: lang.induct)
  case (lang_Lazy0 r' w k')
  then have "w = [] @ w \<and> (\<forall>c\<in>set []. accepts k c) \<and> lang r w" by simp
  then show ?case by blast
next
  case (lang_Lazy1 k' c r' w)
  then obtain a w' where "w = a @ w'" "\<forall>c\<in>set a. accepts k c" "lang r w'" by auto
  with lang_Lazy1 have "c # w = (c # a) @ w' \<and> (\<forall>c\<in>set (c # a). accepts k c) \<and> lang r w'"
    by simp
  then show ?case by blast
qed auto

lemma lang_GreedyI:
  "(\<forall>c\<in>set a. accepts k c) \<Longrightarrow> lang r w \<Longrightarrow> lang (Greedy k # r) (a @ w)"
  by (induction a) (auto intro: lang.intros)

lemma lang_LazyI:
  "(\<forall>c\<in>set a. accepts k c) \<Longrightarrow> lang r w \<Longrightarrow> lang (Lazy k # r) (a @ w)"
  by (induction a) (auto intro: lang.intros)

lemma lang_scrollbars_ends:
  assumes "lang scrollbarsRegex m"
  shows "\<exists>m'. m = m' @ ''}''"
proof -
  from assms obtain a w1 where "m = a @ w1"
    and "lang [Lit ''::-webkit-scrollbar'', Lazy AnyChar, Lit ''{'', Lazy AnyChar, Lit ''}''] w1"
    unfolding scrollbarsRegex_def using lang_GreedyD by blast
  moreover then obtain w2 where "w1 = ''::-webkit-scrollbar'' @ w2"
    and "lang [Lazy AnyChar, Lit ''{'', Lazy AnyChar, Lit ''}''] w2"
    unfolding lang_Lit_iff by blast
  moreover then obtain b w3 where "w2 = b @ w3" and "lang [Lit ''{'', Lazy AnyChar, Lit ''}''] w3"
    using lang_LazyD by blast
  moreover then obtain w4 where "w3 = ''{'' @ w4" and "lang [Lazy AnyChar, Lit ''}''] w4"
    unfolding lang_Lit_iff by blast
  moreover then obtain d w5 where "w4 = d @ w5" and "lang [Lit ''}''] w5"
    using lang_LazyD by blast
  moreover then have "w5 = ''}''"
    unfolding lang_Lit_iff lang_Nil_iff by simp
  ultimately have "m = (a @ ''::-webkit-scrollbar'' @ b @ ''{'' @ d) @ ''}''" by simp
  then show ?thesis by blast
qed

lemma lang_scrollbars_rule:
  assumes "\<forall>ch\<in>set sel. ch \<notin> set ''}|,''"
  shows "lang scrollbarsRegex (sel @ ''::-webkit-scrollbar'' @ mid @ ''{'' @ body @ ''}'')"
proof -
  have "lang [Lit ''}''] ''}''"
    using lang_Lit[OF lang_Nil, of "''}''"] by simp
  then have "lang [Lazy AnyChar, Lit ''}''] (body @ ''}'')"
    by (intro lang_LazyI) auto
  then have "lang [Lit ''{'', Lazy AnyChar, Lit ''}''] (''{'' @ body @ ''}'')"
    by (rule lang_Lit)
  then have "lang [Lazy AnyChar, Lit ''{'', Lazy AnyChar, Lit ''}''] (mid @ ''{'' @ body @ ''}'')"
    by (intro lang_LazyI) auto
  then have "lang [Lit ''::-webkit-scrollbar'', Lazy AnyChar, Lit ''{'', Lazy AnyChar, Lit ''}'']
      (''::-webkit-scrollbar'' @ mid @ ''{'' @ body @ ''}'')"
    by (rule lang_Lit)
  then show ?thesis
    unfolding scrollbarsRegex_def using assms by (intro lang_GreedyI) auto
qed

lemma rmatch_scrollbars_Some:
  assumes "rmatch scrollbarsRegex s = Some t"
  shows "\<exists>m'. s = m' @ ''}'' @ t"
proof -
  from rmatch_sound[OF assms] obtain m where "s = m @ t" "lang scrollbarsRegex m" by blast
  with lang_scrollbars_ends[of m] show ?thesis by auto
qed

lemma snd_replace_collect_Cons:
  "snd (replace_collect re (c # cs)) =
     (case rmatch re (c # cs) of
        None \<Rightarrow> snd (replace_collect re cs)
      | Some rest \<Rightarrow>
          if length rest < length (c # cs)
          then take (length (c # cs) - length rest) (c # cs) # snd (replace_collect re rest)
          else [] # snd (replace_collect re cs))"
  by (simp split: option.splits prod.splits)

lemma fst_replace_collect_Cons:
  "fst (replace_collect re (c # cs)) =
     (case rmatch re (c # cs) of
        None \<Rightarrow> c # fst (replace_collect re cs)
      | Some rest \<Rightarrow>
          if length rest < length (c # cs)
          then fst (replace_collect re rest)
          else c # fst (replace_collect re cs))"
  by (simp split: option.splits prod.splits)

text \<open>A prefix that ends in a closing brace reaches at least the first closing brace.\<close>

lemma brace_prefix:
  assumes "r0 @ ''}'' @ v = m' @ ''}'' @ t" and "CHR ''}'' \<notin> set r0"
  shows "prefix (r0 @ ''}'') (m' @ ''}'')"
proof -
  from assms(1) obtain us where
    "(r0 = m' @ us \<and> us @ ''}'' @ v = ''}'' @ t) \<or> (r0 @ us = m' \<and> ''}'' @ v = us @ ''}'' @ t)"
    unfolding append_eq_append_conv2 by blast
  then show ?thesis
  proof
    assume a: "r0 = m' @ us \<and> us @ ''}'' @ v = ''}'' @ t"
    show ?thesis
    proof (cases us)
      case Nil
      with a show ?thesis by simp
    next
      case (Cons x xs)
      with a have "x = CHR ''}''" by simp
      with a Cons assms(2) show ?thesis by simp
    qed
  next
    assume a: "r0 @ us = m' \<and> ''}'' @ v = us @ ''}'' @ t"
    show ?thesis
    proof (cases us)
      case Nil
      with a show ?thesis by auto
    next
      case (Cons x xs)
      with a have "m' = (r0 @ ''}'') @ xs" by auto
      then show ?thesis by (simp add: prefix_def)
    qed
  qed
qed

lemma replace_collect_match_head:
  assumes "rmatch scrollbarsRegex s = Some t"
  shows "\<exists>m'. s = m' @ ''}'' @ t \<and>
           snd (replace_collect scrollbarsRegex s) = (m' @ ''}'') # snd (replace_collect scrollbarsRegex t)"
proof -
  from rmatch_scrollbars_Some[OF assms] obtain m' where s: "s = m' @ ''}'' @ t" by blast
  then have len: "length t < length s" by simp
  then obtain c cs where cs: "s = c # cs" by (cases s) auto
  have "take (length s - length t) s = m' @ ''}''" unfolding s by simp
  with assms len cs have "snd (replace_collect scrollbarsRegex s) =
      (m' @ ''}'') # snd (replace_collect scrollbarsRegex t)"
    using snd_replace_collect_Cons[of scrollbarsRegex c cs] by simp
  with s show ?thesis by blast
qed

lemma raw_extracts_rule:
  assumes sel: "\<forall>ch\<in>set sel. ch \<notin> set ''}|,''"
    and mid: "CHR ''}'' \<notin> set mid" and body: "CHR ''}'' \<notin> set body"
  shows "\<exists>m\<in>set (snd (replace_collect scrollbarsRegex
            (u @ (sel @ ''::-webkit-scrollbar'' @ mid @ ''{'' @ body @ ''}'') @ v))).
           sublist (sel @ ''::-webkit-scrollbar'' @ mid @ ''{'' @ body @ ''}'') m"
proof -
  let ?init = "sel @ ''::-webkit-scrollbar'' @ mid @ ''{'' @ body"
  let ?r = "sel @ ''::-webkit-scrollbar'' @ mid @ ''{'' @ body @ ''}''"
  have r: "?r = ?init @ ''}''" by simp
  have "CHR ''}'' \<notin> set sel" using sel by (metis list.set_intros(1))
  then have n0: "CHR ''}'' \<notin> set ?init" using mid body by simp
  have lang: "lang scrollbarsRegex ?r" using sel by (rule lang_scrollbars_rule)
  have "\<exists>m\<in>set (snd (replace_collect scrollbarsRegex (u @ ?r @ v))). sublist ?r m"
  proof (induction u rule: length_induct)
    case (1 u)
    show ?case
    proof (cases "rmatch scrollbarsRegex (u @ ?r @ v)")
      case None
      show ?thesis
      proof (cases u)
        case Nil
        with None rmatch_complete[OF lang, of v] show ?thesis by simp
      next
        case (Cons c u')
        with None have "snd (replace_collect scrollbarsRegex (u @ ?r @ v)) =
            snd (replace_collect scrollbarsRegex (u' @ ?r @ v))"
          using snd_replace_collect_Cons[of scrollbarsRegex c "u' @ ?r @ v"] by simp
        moreover have "length u' < length u" using Cons by simp
        ultimately show ?thesis using "1.IH" by metis
      qed
    next
      case (Some t)
      from replace_collect_match_head[OF Some] obtain m' where
        s: "u @ ?r @ v = m' @ ''}'' @ t" and
        sn: "snd (replace_collect scrollbarsRegex (u @ ?r @ v)) =
               (m' @ ''}'') # snd (replace_collect scrollbarsRegex t)"
        by blast
      from s have "u @ (?r @ v) = (m' @ ''}'') @ t" by simp
      then obtain us where
        "(u = (m' @ ''}'') @ us \<and> us @ (?r @ v) = t) \<or> (u @ us = m' @ ''}'' \<and> ?r @ v = us @ t)"
        unfolding append_eq_append_conv2 by blast
      then consider (before) us' where "t = us' @ ?r @ v" "length us' < length u"
        | (covers) us where "u @ us = m' @ ''}''" "?r @ v = us @ t" "us \<noteq> []"
      proof
        assume a: "u = (m' @ ''}'') @ us \<and> us @ (?r @ v) = t"
        then have "t = us @ ?r @ v" "length us < length u" by auto
        then show ?thesis using that(1) by blast
      next
        assume a: "u @ us = m' @ ''}'' \<and> ?r @ v = us @ t"
        show ?thesis
        proof (cases us)
          case Nil
          with a have "t = [] @ ?r @ v" "length ([]::string) < length u" by auto
          then show ?thesis using that(1) by blast
        next
          case (Cons x xs)
          with a show ?thesis using that(2)[of us] by blast
        qed
      qed
      then show ?thesis
      proof cases
        case before
        from "1.IH" before(2)
        have "\<exists>m\<in>set (snd (replace_collect scrollbarsRegex (us' @ ?r @ v))). sublist ?r m"
          by blast
        with before(1) sn show ?thesis by auto
      next
        case covers
        from covers(1,3) obtain us' where us: "us = us' @ ''}''"
          by (metis append_butlast_last_id last_appendR last_snoc)
        with covers(2) have "?init @ ''}'' @ v = us' @ ''}'' @ t" by simp
        from brace_prefix[OF this n0] us have "prefix ?r us" by simp
        then have "sublist ?r (u @ us)" by (auto simp: prefix_def sublist_def)
        with covers(1) sn show ?thesis by simp
      qed
    qed
  qed
  then show ?thesis by simp
qed

lemma replace_collect_matches_sublist:
  "m \<in> set (snd (replace_collect re s)) \<Longrightarrow> sublist m s"
proof (induction s arbitrary: m rule: length_induct)
  case (1 s)
  show ?case
  proof (cases s)
    case Nil
    with "1.prems" show ?thesis by (auto split: option.splits)
  next
    case (Cons c cs)
    have cs: "m \<in> set (snd (replace_collect re cs)) \<Longrightarrow> sublist m s"
      using "1.IH" Cons by (auto simp: sublist_Cons_right)
    show ?thesis
    proof (cases "rmatch re s")
      case None
      with "1.prems" Cons cs show ?thesis
        by (simp del: replace_collect.simps add: snd_replace_collect_Cons)
    next
      case (Some rest)
      show ?thesis
      proof (cases "length rest < length s")
        case True
        from rmatch_sound[OF Some] obtain p where p: "s = p @ rest" by blast
        from "1.prems" Some True Cons
        have "m = take (length s - length rest) s \<or> m \<in> set (snd (replace_collect re rest))"
          by (simp del: replace_collect.simps add: snd_replace_collect_Cons)
        then show ?thesis
        proof
          assume "m = take (length s - length rest) s"
          then show ?thesis by simp
        next
          assume "m \<in> set (snd (replace_collect re rest))"
          with "1.IH" True have "sublist m rest" by blast
          then show ?thesis unfolding p by (auto simp: sublist_append)
        qed
      next
        case False
        with "1.prems" Some Cons cs show ?thesis
          by (auto simp del: replace_collect.simps simp add: snd_replace_collect_Cons)
      qed
    qed
  qed
qed

text \<open>
  Claim C4: a scrollbar rule block that lies entirely inside a block comment is not
  extracted when extraction runs after comment stripping, as \<open>extractScrollbars\<close>
  does, while the scrollbar pattern run on the raw input extracts it.

  The input is \<open>pre\<close>, then the comment \<^verbatim>\<open>/*\<close> \<open>c1 rule c2\<close> \<^verbatim>\<open>*/\<close>, then
  \<open>post\<close>. Every comment opened in \<open>pre\<close> is closed in \<open>pre\<close> (stripping \<open>pre\<close>
  leaves no opener), and the body of the comment holds no \<^verbatim>\<open>*/\<close>. The rule is a
  selector without \<^verbatim>\<open>}\<close>, \<^verbatim>\<open>|\<close> or \<^verbatim>\<open>,\<close>, the pseudo-element, and one braced
  block, its only \<^verbatim>\<open>}\<close> the last character. Then the result of
  \<open>extractScrollbars\<close> is computed from the text outside the comment alone, every
  extracted rule is a piece of that text, and the pattern run on the raw input has a
  match that contains the commented rule.
\<close>

theorem commented_rule_not_extracted:
  assumes "\<not> sublist ''/*'' (stripComments pre)"
    and "\<not> sublist ''*/'' (c1 @ sel @ ''::-webkit-scrollbar'' @ mid @ ''{'' @ body @ ''}'' @ c2)"
    and "set sel \<inter> set ''}|,'' = {}"
    and "CHR ''}'' \<notin> set mid" and "CHR ''}'' \<notin> set body"
  shows
    "extractScrollbars
        (pre @ ''/*'' @ c1 @ sel @ ''::-webkit-scrollbar'' @ mid @ ''{'' @ body @ ''}'' @ c2 @ ''*/'' @ post) =
       \<lparr>r_content = fst (replace_collect scrollbarsRegex (stripComments pre @ stripComments post)),
        r_scrollbar = snd (replace_collect scrollbarsRegex (stripComments pre @ stripComments post))\<rparr> \<and>
     (\<forall>m \<in> set (r_scrollbar (extractScrollbars
        (pre @ ''/*'' @ c1 @ sel @ ''::-webkit-scrollbar'' @ mid @ ''{'' @ body @ ''}'' @ c2 @ ''*/'' @ post))).
        sublist m (stripComments pre @ stripComments post)) \<and>
     (\<exists>m \<in> set (snd (replace_collect scrollbarsRegex
        (pre @ ''/*'' @ c1 @ sel @ ''::-webkit-scrollbar'' @ mid @ ''{'' @ body @ ''}'' @ c2 @ ''*/'' @ post))).
        sublist (sel @ ''::-webkit-scrollbar'' @ mid @ ''{'' @ body @ ''}'') m)"
proof -
  let ?r = "sel @ ''::-webkit-scrollbar'' @ mid @ ''{'' @ body @ ''}''"
  let ?c = "c1 @ ?r @ c2"
  let ?x = "pre @ ''/*'' @ ?c @ ''*/'' @ post"
  have c: "\<not> sublist ''*/'' ?c" using assms(2) by simp
  have strip: "stripComments ?x = stripComments pre @ stripComments post"
    using assms(1) c by (rule strip_past_comment)
  have 1: "extractScrollbars ?x =
       \<lparr>r_content = fst (replace_collect scrollbarsRegex (stripComments pre @ stripComments post)),
        r_scrollbar = snd (replace_collect scrollbarsRegex (stripComments pre @ stripComments post))\<rparr>"
    unfolding extractScrollbars_def strip by (simp add: Let_def)
  have 2: "\<forall>m \<in> set (r_scrollbar (extractScrollbars ?x)).
             sublist m (stripComments pre @ stripComments post)"
    unfolding 1 by (simp add: replace_collect_matches_sublist)
  have sel: "\<forall>ch\<in>set sel. ch \<notin> set ''}|,''" using assms(3) by blast
  have "\<exists>m \<in> set (snd (replace_collect scrollbarsRegex ((pre @ ''/*'' @ c1) @ ?r @ (c2 @ ''*/'' @ post)))).
          sublist ?r m"
    using sel assms(4,5) by (rule raw_extracts_rule)
  then have 3: "\<exists>m \<in> set (snd (replace_collect scrollbarsRegex ?x)). sublist ?r m"
    by simp
  from 1 2 3 show ?thesis by simp
qed

theorem commented_rule_not_extracted_witness:
  "\<not> sublist ''/*'' (stripComments ''/* x */a{}'') \<and>
   \<not> sublist ''*/'' '' body::-webkit-scrollbar{width:1px} '' \<and>
   set ''body'' \<inter> set ''}|,'' = {} \<and>
   extractScrollbars ''/* x */a{}/* body::-webkit-scrollbar{width:1px} */ body{color:red}'' =
     \<lparr>r_content = ''a{} body{color:red}'', r_scrollbar = []\<rparr> \<and>
   (\<exists>m \<in> set (snd (replace_collect scrollbarsRegex
        ''/* x */a{}/* body::-webkit-scrollbar{width:1px} */ body{color:red}'')).
      sublist ''body::-webkit-scrollbar{width:1px}'' m)"
proof -
  have p: "stripComments ''/* x */a{}'' = ''a{}''"
    by (simp add: stripComments_Cons stripComments_Nil rmatch_comment)
  have h1: "\<not> sublist ''/*'' (stripComments ''/* x */a{}'')"
    unfolding p by (simp add: sublist_Cons_right)
  have h2: "\<not> sublist ''*/'' ('' '' @ ''body'' @ ''::-webkit-scrollbar'' @ [] @ ''{'' @
              ''width:1px'' @ ''}'' @ '' '')"
    by (simp add: sublist_Cons_right)
  have h3: "set ''body'' \<inter> set ''}|,'' = {}" by simp
  have h4: "CHR ''}'' \<notin> set []" by simp
  have h5: "CHR ''}'' \<notin> set ''width:1px''" by simp
  have v: "stripComments '' body{color:red}'' = '' body{color:red}''"
    by (simp add: stripComments_Cons stripComments_Nil rmatch_comment)
  have e: "replace_collect scrollbarsRegex ''a{} body{color:red}'' = (''a{} body{color:red}'', [])"
    by (simp add: scrollbarsRegex_def)
  from commented_rule_not_extracted[OF h1 h2 h3 h4 h5, of "'' body{color:red}''"] h1 h2 h3
  show ?thesis
    by (simp add: p v e del: replace_collect.simps)
qed

subsection \<open>Selection, directories and the light refresh\<close>

lemma registry_lookup_plain:
  assumes "loadedThemes w n = None" and "n \<notin> set object_prototype_names"
    and "loadedThemes w ''__proto__'' = None"
  shows "registry_lookup w n = Undefined"
  using assms by (simp add: registry_lookup_def)

lemma getCurrentThemes_plain_name:
  assumes "prefs_themes en = Some [n]"
    and "loadedThemes w n = None" and "n \<notin> set object_prototype_names"
    and "loadedThemes w ''__proto__'' = None"
    and "loadedThemes w ''default'' = Some d"
  shows "getCurrentThemes en w = Inr [ThemeObj d]"
  using assms by (simp add: getCurrentThemes_def registry_lookup_def defaultTheme_def)

lemma getCurrentThemes_registered_name:
  assumes "prefs_themes en = Some names" and "i < length names"
    and "loadedThemes w (names ! i) = Some r"
  shows "\<exists>ts. getCurrentThemes en w = Inr ts \<and> length ts = length names \<and> ts ! i = ThemeObj r"
  using assms by (simp add: getCurrentThemes_def registry_lookup_def)

text \<open>
  Claim C6 says that every requested name without a registry entry resolves to the
  theme registered under the default name. The name \<^verbatim>\<open>constructor\<close> has no entry
  in a registry that holds only the default theme, yet \<open>getCurrentThemes\<close> returns
  the value the registry object inherits under that name, which is no theme, and not
  the default theme.
\<close>

theorem getCurrentThemes_inherited_name:
  "prefs_themes (ex_env\<lparr>prefs_themes := Some [''constructor'']\<rparr>) = Some [''constructor''] \<and>
   loadedThemes (ex_world\<lparr>loadedThemes := [''default'' \<mapsto> 0]\<rparr>) ''constructor'' = None \<and>
   loadedThemes (ex_world\<lparr>loadedThemes := [''default'' \<mapsto> 0]\<rparr>) ''default'' = Some 0 \<and>
   getCurrentThemes (ex_env\<lparr>prefs_themes := Some [''constructor'']\<rparr>)
     (ex_world\<lparr>loadedThemes := [''default'' \<mapsto> 0]\<rparr>) = Inr [Inherited ''constructor'']"
  by (simp add: getCurrentThemes_def registry_lookup_def object_prototype_names_def)

text \<open>
  Claim C7: \<open>loadDirectory\<close> called with an empty string or with no path is rejected
  with the \<^verbatim>\<open>{path, error}\<close> object, and no collaborator is called: the state,
  with its record of calls, is unchanged.
\<close>

theorem loadDirectory_empty_path:
  "loadDirectory en None w = ((Rejected (PathError None ''Path not defined''), []), w) \<and>
   loadDirectory en (Some []) w = ((Rejected (PathError (Some []) ''Path not defined''), []), w)"
  by (simp add: loadDirectory_def)

theorem loadDirectory_empty_path_witness:
  "loadDirectory ex_env None init_world =
     ((Rejected (PathError None ''Path not defined''), []), init_world) \<and>
   loadDirectory ex_env (Some []) init_world =
     ((Rejected (PathError (Some []) ''Path not defined''), []), init_world) \<and>
   trace init_world = []"
  using loadDirectory_empty_path[of ex_env init_world] by (simp add: init_world_def)

text \<open>
  Claim C8: \<open>refresh\<close> with \<open>force\<close> false or absent throws nothing, reads no theme
  source and leaves every theme object, the registry and the style nodes as they are;
  it asks for the active editor and, if there is one, updates the view.
\<close>

theorem refresh_light:
  assumes "force \<noteq> Some True"
  shows "\<exists>w'. refresh en force w = (None, w') \<and>
           heap w' = heap w \<and> loadedThemes w' = loadedThemes w \<and> styles w' = styles w \<and>
           next_handle w' = next_handle w \<and> next_ref w' = next_ref w \<and>
           trace w' = trace w @
             (if activeEditor en
              then [GetActiveEditor, SetDocumentMode, UpdateThemes, CmRefresh, ResizeEditor]
              else [GetActiveEditor])"
  using assms by (simp add: refresh_def updateView_def log_event_def)

theorem refresh_light_witness:
  "(Some False \<noteq> Some True) \<and> fst (refresh ex_env (Some False) ex_world) = None \<and>
   heap (snd (refresh ex_env (Some False) ex_world)) = heap ex_world \<and>
   styles (snd (refresh ex_env (Some False) ex_world)) = styles ex_world \<and>
   trace (snd (refresh ex_env (Some False) ex_world)) =
     [GetActiveEditor, SetDocumentMode, UpdateThemes, CmRefresh, ResizeEditor]"
proof -
  have h: "Some False \<noteq> Some True" by simp
  from refresh_light[OF h, of ex_env ex_world] show ?thesis
    by (auto simp: ex_env_def ex_world_def)
qed

subsection \<open>Theme construction\<close>

lemma Theme_className:
  assumes "Theme f opts = Inr t"
    and "truthy (opt_name opts) = None" and "truthy (opt_className opts) = None"
  shows "className t = ''theme-'' @ substring (fname f) 0 (lastIndexOf (fname f) CHR ''.'')"
  using assms by (auto simp: Theme_def Let_def split: sum.splits option.splits)

text \<open>
  Claim C5 says that themes built without a name or class override from files with
  different file names have different class names. They need not: the class name is
  made from the file name without its extension, so \<^verbatim>\<open>a.css\<close> and \<^verbatim>\<open>a.less\<close> both
  give \<^verbatim>\<open>theme-a\<close>.
\<close>

theorem className_collision:
  "fname \<lparr>path = ''/themes/a.css'', fname = ''a.css''\<rparr> \<noteq>
     fname \<lparr>path = ''/themes/a.less'', fname = ''a.less''\<rparr> \<and>
   Theme \<lparr>path = ''/themes/a.css'', fname = ''a.css''\<rparr> no_options =
     Inr \<lparr>tfile = \<lparr>path = ''/themes/a.css'', fname = ''a.css''\<rparr>, displayName = ''A'',
          name = ''a'', className = ''theme-a'', scrollbar = None, css = None\<rparr> \<and>
   Theme \<lparr>path = ''/themes/a.less'', fname = ''a.less''\<rparr> no_options =
     Inr \<lparr>tfile = \<lparr>path = ''/themes/a.less'', fname = ''a.less''\<rparr>, displayName = ''A'',
          name = ''a'', className = ''theme-a'', scrollbar = None, css = None\<rparr>"
  by (simp add: Theme_def no_options_def toDisplayName_def substring_def substring_from_def
      toUpperCase_def Let_def)

text \<open>
  Claim C5, amended: two themes built without a name or class override have the same
  class name exactly when their file names agree up to the last dot; so files whose
  names differ before the last dot get different class names, also when the display
  names coincide.
\<close>

theorem className_unique_up_to_extension:
  assumes "Theme f1 opts1 = Inr t1" and "Theme f2 opts2 = Inr t2"
    and "truthy (opt_name opts1) = None" and "truthy (opt_className opts1) = None"
    and "truthy (opt_name opts2) = None" and "truthy (opt_className opts2) = None"
  shows "className t1 = className t2 \<longleftrightarrow>
           substring (fname f1) 0 (lastIndexOf (fname f1) CHR ''.'') =
           substring (fname f2) 0 (lastIndexOf (fname f2) CHR ''.'')"
  using Theme_className[OF assms(1,3,4)] Theme_className[OF assms(2,5,6)] by simp

theorem className_unique_up_to_extension_witness:
  "Theme \<lparr>path = ''/themes/a.css'', fname = ''a.css''\<rparr> no_options =
     Inr \<lparr>tfile = \<lparr>path = ''/themes/a.css'', fname = ''a.css''\<rparr>, displayName = ''A'',
          name = ''a'', className = ''theme-a'', scrollbar = None, css = None\<rparr> \<and>
   Theme \<lparr>path = ''/themes/b.less'', fname = ''b.less''\<rparr> no_options =
     Inr \<lparr>tfile = \<lparr>path = ''/themes/b.less'', fname = ''b.less''\<rparr>, displayName = ''B'',
          name = ''b'', className = ''theme-b'', scrollbar = None, css = None\<rparr> \<and>
   truthy (opt_name no_options) = None \<and> truthy (opt_className no_options) = None \<and>
   substring ''a.css'' 0 (lastIndexOf ''a.css'' CHR ''.'') \<noteq>
     substring ''b.less'' 0 (lastIndexOf ''b.less'' CHR ''.'') \<and>
   ''theme-a'' \<noteq> ''theme-b''"
proof -
  have a: "Theme \<lparr>path = ''/themes/a.css'', fname = ''a.css''\<rparr> no_options =
     Inr \<lparr>tfile = \<lparr>path = ''/themes/a.css'', fname = ''a.css''\<rparr>, displayName = ''A'',
          name = ''a'', className = ''theme-a'', scrollbar = None, css = None\<rparr>"
    by (simp add: Theme_def no_options_def toDisplayName_def substring_def substring_from_def
        toUpperCase_def Let_def)
  have b: "Theme \<lparr>path = ''/themes/b.less'', fname = ''b.less''\<rparr> no_options =
     Inr \<lparr>tfile = \<lparr>path = ''/themes/b.less'', fname = ''b.less''\<rparr>, displayName = ''B'',
          name = ''b'', className = ''theme-b'', scrollbar = None, css = None\<rparr>"
    by (simp add: Theme_def no_options_def toDisplayName_def substring_def substring_from_def
        toUpperCase_def Let_def)
  have n: "truthy (opt_name no_options) = None" and c: "truthy (opt_className no_options) = None"
    by (simp_all add: no_options_def)
  have s: "substring ''a.css'' 0 (lastIndexOf ''a.css'' CHR ''.'') \<noteq>
     substring ''b.less'' 0 (lastIndexOf ''b.less'' CHR ''.'')"
    by (simp add: substring_def)
  from className_unique_up_to_extension[OF a b n c n c] s have "''theme-a'' \<noteq> ''theme-b''"
    by simp
  with a b n c s show ?thesis by blast
qed

subsection \<open>Display names and loading a file\<close>

lemma capitalize_parts_empty: "[] \<in> set parts \<Longrightarrow> capitalize_parts parts = Inl TypeError"
  by (induction parts) (auto split: list.splits sum.splits)

lemma split_not_Nil: "split s sep \<noteq> []"
  by (induction s) (auto split: list.splits)

lemma split_leading: "[] \<in> set (split (sep # s) sep)"
  by simp

lemma split_double: "[] \<in> set (tl (split (a @ sep # sep # b) sep))"
proof (induction a)
  case Nil
  show ?case by simp
next
  case (Cons c a)
  show ?case
  proof (cases "c = sep")
    case True
    from Cons have "[] \<in> set (split (a @ sep # sep # b) sep)"
      by (meson list.set_sel(2) split_not_Nil)
    with True show ?thesis by simp
  next
    case False
    with Cons show ?thesis by (auto split: list.splits)
  qed
qed

lemma empty_part:
  assumes "base = [] \<or> prefix ''-'' base \<or> sublist ''--'' base"
  shows "[] \<in> set (split (map (\<lambda>c. if c = CHR ''-'' then CHR '' '' else c) base) CHR '' '')"
  using assms
proof (elim disjE)
  assume "base = []"
  then show ?thesis by simp
next
  assume "prefix ''-'' base"
  then obtain b where "base = CHR ''-'' # b" by (auto simp: prefix_def)
  then show ?thesis by simp
next
  assume "sublist ''--'' base"
  then obtain u v where "base = u @ ''--'' @ v" by (auto simp: sublist_def)
  then have "map (\<lambda>c. if c = CHR ''-'' then CHR '' '' else c) base =
      map (\<lambda>c. if c = CHR ''-'' then CHR '' '' else c) u @ CHR '' '' # CHR '' '' #
      map (\<lambda>c. if c = CHR ''-'' then CHR '' '' else c) v"
    by simp
  then show ?thesis
    using split_double[of "map (\<lambda>c. if c = CHR ''-'' then CHR '' '' else c) u" "CHR '' ''"
        "map (\<lambda>c. if c = CHR ''-'' then CHR '' '' else c) v"]
    by (metis list.set_sel(2) split_not_Nil)
qed

lemma loadFile_throws:
  assumes "snd (fs_exists en p)"
    and "Theme (getFileForPath p) (case opts of None \<Rightarrow> no_options | Some os \<Rightarrow> os) = Inl e"
  shows "loadFile en p opts w =
           (\<lparr>l_promise = Pending, l_uncaught = Some e\<rparr>, log_event (FsExists p) w)"
  using assms by (cases "fs_exists en p") (simp add: loadFile_def Let_def)

lemma loadFile_rejects:
  assumes "fs_exists en p = (Some e, False)"
  shows "loadFile en p opts w =
           (\<lparr>l_promise = Rejected (IOError e), l_uncaught = None\<rparr>, log_event (FsExists p) w)"
  using assms by (simp add: loadFile_def Let_def)

lemma loadFile_never_settles:
  assumes "fs_exists en p = (None, False)"
  shows "loadFile en p opts w =
           (\<lparr>l_promise = Pending, l_uncaught = None\<rparr>, log_event (FsExists p) w)"
  using assms by (simp add: loadFile_def Let_def)

lemma loadFile_resolves:
  assumes "snd (fs_exists en p)"
    and "Theme (getFileForPath p) (case opts of None \<Rightarrow> no_options | Some os \<Rightarrow> os) = Inr th"
    and "name th \<notin> set (case prefs_themes en of None \<Rightarrow> [] | Some ts \<Rightarrow> ts)"
  shows "loadFile en p opts w =
           (\<lparr>l_promise = Resolved (next_ref w), l_uncaught = None\<rparr>,
            (log_event (FsExists p) w)
              \<lparr>heap := (heap w)(next_ref w := th), next_ref := Suc (next_ref w),
               loadedThemes := (loadedThemes w)(name th \<mapsto> next_ref w)\<rparr>)"
  using assms
  by (cases "fs_exists en p"; cases "prefs_themes en") (simp_all add: loadFile_def Let_def log_event_def)

text \<open>
  Claim C10: \<open>toDisplayName\<close> is not total. When the file name up to its last dot is
  empty, starts with a hyphen, contains two hyphens in a row, or in any other way
  splits into parts one of which is empty, \<open>toDisplayName\<close> throws; and \<open>loadFile\<close>
  on such a file that exists, with no title override, ends with that exception escaping
  from the callback and with its promise neither resolved nor rejected.
\<close>

theorem toDisplayName_not_total:
  assumes "base = substring fileName 0 (lastIndexOf fileName CHR ''.'')"
    and "base = [] \<or> prefix ''-'' base \<or> sublist ''--'' base \<or>
         [] \<in> set (split (map (\<lambda>c. if c = CHR ''-'' then CHR '' '' else c) base) CHR '' '')"
  shows "toDisplayName fileName = Inl TypeError \<and>
         (\<forall>en p opts w.
            fname (getFileForPath p) = fileName \<and> snd (fs_exists en p) \<and>
            truthy (title (case opts of None \<Rightarrow> no_options | Some os \<Rightarrow> os)) = None
            \<longrightarrow> loadFile en p opts w =
                  (\<lparr>l_promise = Pending, l_uncaught = Some TypeError\<rparr>, log_event (FsExists p) w))"
proof -
  from assms(2) empty_part[of base]
  have "[] \<in> set (split (map (\<lambda>c. if c = CHR ''-'' then CHR '' '' else c) base) CHR '' '')"
    by blast
  then have t: "toDisplayName fileName = Inl TypeError"
    unfolding toDisplayName_def assms(1) by (simp add: capitalize_parts_empty Let_def)
  have "loadFile en p opts w =
          (\<lparr>l_promise = Pending, l_uncaught = Some TypeError\<rparr>, log_event (FsExists p) w)"
    if "fname (getFileForPath p) = fileName" "snd (fs_exists en p)"
      "truthy (title (case opts of None \<Rightarrow> no_options | Some os \<Rightarrow> os)) = None"
    for en p opts w
  proof -
    from that(1,3) t
    have "Theme (getFileForPath p) (case opts of None \<Rightarrow> no_options | Some os \<Rightarrow> os) = Inl TypeError"
      by (simp add: Theme_def Let_def)
    with that(2) show ?thesis by (rule loadFile_throws)
  qed
  with t show ?thesis by blast
qed

theorem toDisplayName_not_total_witness:
  "''-dark'' = substring ''-dark.less'' 0 (lastIndexOf ''-dark.less'' CHR ''.'') \<and>
   prefix ''-'' ''-dark'' \<and>
   toDisplayName ''-dark.less'' = Inl TypeError \<and>
   loadFile ex_env ''/themes/-dark.less'' None init_world =
     (\<lparr>l_promise = Pending, l_uncaught = Some TypeError\<rparr>,
      log_event (FsExists ''/themes/-dark.less'') init_world)"
proof -
  have b: "''-dark'' = substring ''-dark.less'' 0 (lastIndexOf ''-dark.less'' CHR ''.'')"
    by (simp add: substring_def)
  have h: "''-dark'' = [] \<or> prefix ''-'' ''-dark'' \<or> sublist ''--'' ''-dark'' \<or>
         [] \<in> set (split (map (\<lambda>c. if c = CHR ''-'' then CHR '' '' else c) ''-dark'') CHR '' '')"
    by simp
  have f: "fname (getFileForPath ''/themes/-dark.less'') = ''-dark.less''"
    by (simp add: getFileForPath_def)
  have e: "snd (fs_exists ex_env ''/themes/-dark.less'')" by (simp add: ex_env_def)
  have o: "truthy (title (case None of None \<Rightarrow> no_options | Some os \<Rightarrow> os)) = None"
    by (simp add: no_options_def)
  from toDisplayName_not_total[OF b h] f e o
  have "toDisplayName ''-dark.less'' = Inl TypeError \<and>
        loadFile ex_env ''/themes/-dark.less'' None init_world =
          (\<lparr>l_promise = Pending, l_uncaught = Some TypeError\<rparr>,
           log_event (FsExists ''/themes/-dark.less'') init_world)"
    by blast
  moreover have "prefix ''-'' ''-dark''" by simp
  ultimately show ?thesis using b by blast
qed

text \<open>
  Claim C9 says that \<open>loadFile\<close> resolves with the registered theme whenever the
  existence check reports that the file exists. For the existing file
  \<^verbatim>\<open>/themes/a--b.css\<close> and no options the constructor throws in \<open>toDisplayName\<close>:
  the exception escapes from the callback, no theme is registered and the promise stays
  pending.
\<close>

theorem loadFile_existing_file_unsettled:
  "fs_exists ex_env ''/themes/a--b.css'' = (None, True) \<and>
   loadFile ex_env ''/themes/a--b.css'' None init_world =
     (\<lparr>l_promise = Pending, l_uncaught = Some TypeError\<rparr>,
      init_world\<lparr>trace := [FsExists ''/themes/a--b.css'']\<rparr>) \<and>
   loadedThemes init_world = Map.empty"
  by (simp add: loadFile_def ex_env_def init_world_def log_event_def getFileForPath_def
      Theme_def no_options_def toDisplayName_def substring_def Let_def)

subsection \<open>Loading and applying a theme\<close>

lemma loadTheme_read_error:
  assumes "fs_readAsText en (path (tfile (heap w r))) = Inl err"
  shows "loadTheme en r w = (Rejected (IOError err), w)"
  using assms by (simp add: loadTheme_def)

lemma loadTheme_compile_error:
  assumes "fs_readAsText en (path (tfile (heap w r))) = Inr content"
    and "less_parse en (path (tfile (heap w r)))
           (''.'' @ className (heap w r) @ ''{'' @ r_content (extractScrollbars content) @ ''}'') = Inl err"
  shows "loadTheme en r w =
           (Rejected (CompileError err),
            w\<lparr>heap := (heap w)(r := (heap w r)\<lparr>scrollbar := Some (r_scrollbar (extractScrollbars content))\<rparr>),
              trace := trace w @
                [LessParse (path (tfile (heap w r)))
                   (''.'' @ className (heap w r) @ ''{'' @ r_content (extractScrollbars content) @ ''}'')]\<rparr>)"
  using assms by (simp add: loadTheme_def lessifyTheme_def log_event_def Let_def)

lemma loadTheme_success:
  assumes "fs_readAsText en (path (tfile (heap w r))) = Inr content"
    and "less_parse en (path (tfile (heap w r)))
           (''.'' @ className (heap w r) @ ''{'' @ r_content (extractScrollbars content) @ ''}'') = Inr style"
  shows "loadTheme en r w =
           (Resolved r,
            w\<lparr>heap := (heap w)(r := (heap w r)
                  \<lparr>scrollbar := Some (r_scrollbar (extractScrollbars content)),
                   css := Some (next_handle w)\<rparr>),
              styles := (case css (heap w r) of
                           None \<Rightarrow> styles w @ [(next_handle w, style)]
                         | Some old \<Rightarrow> filter (\<lambda>(h, s). h \<noteq> old) (styles w @ [(next_handle w, style)])),
              next_handle := Suc (next_handle w),
              trace := trace w @
                [LessParse (path (tfile (heap w r)))
                   (''.'' @ className (heap w r) @ ''{'' @ r_content (extractScrollbars content) @ ''}''),
                 AddEmbeddedStyleSheet style (next_handle w)] @
                (case css (heap w r) of None \<Rightarrow> [] | Some old \<Rightarrow> [RemoveNode old])\<rparr>)"
  using assms
  by (cases "css (heap w r)") (simp_all add: loadTheme_def lessifyTheme_def log_event_def Let_def)

lemma ex_extract:
  "extractScrollbars ''body::-webkit-scrollbar{width:1px} body{color:red}'' =
     \<lparr>r_content = '' body{color:red}'', r_scrollbar = [''body::-webkit-scrollbar{width:1px}'']\<rparr>"
  by (simp add: extractScrollbars_def stripComments_def commentRegex_def scrollbarsRegex_def)

lemma ex_loadTheme_broken:
  "loadTheme ex_env_broken 0 ex_world =
     (Rejected (CompileError ''parse error''),
      ex_world\<lparr>heap := (heap ex_world)
                 (0 := ex_theme\<lparr>scrollbar := Some [''body::-webkit-scrollbar{width:1px}'']\<rparr>),
               trace := [LessParse ''/themes/a.css'' ''.theme-a{ body{color:red}}'']\<rparr>)"
proof -
  have r: "fs_readAsText ex_env_broken (path (tfile (heap ex_world 0))) =
             Inr ''body::-webkit-scrollbar{width:1px} body{color:red}''"
    by (simp add: ex_env_broken_def ex_env_def)
  have l: "less_parse ex_env_broken (path (tfile (heap ex_world 0)))
             (''.'' @ className (heap ex_world 0) @ ''{'' @
              r_content (extractScrollbars ''body::-webkit-scrollbar{width:1px} body{color:red}'') @ ''}'') =
             Inl ''parse error''"
    by (simp add: ex_env_broken_def)
  show ?thesis
    unfolding loadTheme_compile_error[OF r l] ex_extract
    by (simp add: ex_world_def ex_theme_def)
qed

lemma ex_loadTheme:
  "loadTheme ex_env 0 ex_world =
     (Resolved 0,
      ex_world\<lparr>heap := (heap ex_world)
                 (0 := ex_theme\<lparr>scrollbar := Some [''body::-webkit-scrollbar{width:1px}''],
                                css := Some 1\<rparr>),
               styles := [(1, ''.theme-a{ body{color:red}}'')],
               next_handle := 2,
               trace := [LessParse ''/themes/a.css'' ''.theme-a{ body{color:red}}'',
                         AddEmbeddedStyleSheet ''.theme-a{ body{color:red}}'' 1,
                         RemoveNode 0]\<rparr>)"
proof -
  have r: "fs_readAsText ex_env (path (tfile (heap ex_world 0))) =
             Inr ''body::-webkit-scrollbar{width:1px} body{color:red}''"
    by (simp add: ex_env_def)
  have l: "less_parse ex_env (path (tfile (heap ex_world 0)))
             (''.'' @ className (heap ex_world 0) @ ''{'' @
              r_content (extractScrollbars ''body::-webkit-scrollbar{width:1px} body{color:red}'') @ ''}'') =
             Inr (''.'' @ className (heap ex_world 0) @ ''{'' @
              r_content (extractScrollbars ''body::-webkit-scrollbar{width:1px} body{color:red}'') @ ''}'')"
    by (simp add: ex_env_def)
  show ?thesis
    unfolding loadTheme_success[OF r l] ex_extract
    by (simp add: ex_world_def ex_theme_def)
qed

lemma loadTheme_frame:
  assumes "loadTheme en x w = (p, w1)"
  shows "tfile (heap w1 y) = tfile (heap w y) \<and> className (heap w1 y) = className (heap w y) \<and>
         (y \<noteq> x \<longrightarrow> heap w1 y = heap w y)"
proof (cases "fs_readAsText en (path (tfile (heap w x)))")
  case (Inl e)
  from loadTheme_read_error[OF Inl] assms show ?thesis by simp
next
  case (Inr content)
  show ?thesis
  proof (cases "less_parse en (path (tfile (heap w x)))
           (''.'' @ className (heap w x) @ ''{'' @ r_content (extractScrollbars content) @ ''}'')")
    case l: (Inl e)
    from loadTheme_compile_error[OF Inr l] assms show ?thesis by auto
  next
    case l: (Inr style)
    from loadTheme_success[OF Inr l] assms show ?thesis by auto
  qed
qed

lemma loadThemes_failed_compile:
  assumes "fs_readAsText en (path (tfile (heap w r))) = Inr content"
    and "less_parse en (path (tfile (heap w r)))
           (''.'' @ className (heap w r) @ ''{'' @ r_content (extractScrollbars content) @ ''}'') = Inl err"
    and "loadThemes en rs w = (ps, w')"
  shows "tfile (heap w' r) = tfile (heap w r) \<and> className (heap w' r) = className (heap w r) \<and>
         css (heap w' r) = css (heap w r) \<and>
         (r \<in> set rs \<longrightarrow>
            scrollbar (heap w' r) = Some (r_scrollbar (extractScrollbars content)) \<and>
            Rejected (CompileError err) \<in> set ps) \<and>
         (r \<notin> set rs \<longrightarrow> heap w' r = heap w r)"
  using assms
proof (induction rs arbitrary: w ps w')
  case Nil
  then show ?case by simp
next
  case (Cons x xs)
  obtain p w1 where step: "loadTheme en x w = (p, w1)" by (cases "loadTheme en x w")
  obtain qs w2 where rest: "loadThemes en xs w1 = (qs, w2)" by (cases "loadThemes en xs w1")
  from Cons.prems(3) step rest have ps: "ps = p # qs" and w': "w' = w2" by simp_all
  from loadTheme_frame[OF step, of r]
  have same: "tfile (heap w1 r) = tfile (heap w r)" "className (heap w1 r) = className (heap w r)"
    and other: "r \<noteq> x \<Longrightarrow> heap w1 r = heap w r"
    by simp_all
  have r1: "fs_readAsText en (path (tfile (heap w1 r))) = Inr content"
    using Cons.prems(1) same by simp
  have l1: "less_parse en (path (tfile (heap w1 r)))
           (''.'' @ className (heap w1 r) @ ''{'' @ r_content (extractScrollbars content) @ ''}'') = Inl err"
    using Cons.prems(2) same by simp
  note IH = Cons.IH[OF r1 l1 rest]
  show ?case
  proof (cases "x = r")
    case True
    from loadTheme_compile_error[OF Cons.prems(1,2)] step True
    have p: "p = Rejected (CompileError err)"
      and c1: "css (heap w1 r) = css (heap w r)"
      and s1: "scrollbar (heap w1 r) = Some (r_scrollbar (extractScrollbars content))"
      by auto
    from IH same c1 s1 p True show ?thesis unfolding ps w' by (cases "r \<in> set xs") auto
  next
    case False
    from other[OF False[symmetric]] IH False show ?thesis unfolding ps w' by auto
  qed
qed

lemma when_all_rejected: "Rejected e \<in> set ps \<Longrightarrow> \<exists>e'. when_all ps = Rejected e'"
proof (induction ps)
  case Nil
  then show ?case by simp
next
  case (Cons p ps)
  show ?case
  proof (cases "Rejected e \<in> set ps")
    case True
    with Cons.IH obtain e' where "when_all ps = Rejected e'" by blast
    then show ?thesis by (cases p) simp_all
  next
    case False
    with Cons.prems have "p = Rejected e" by simp
    then show ?thesis by simp
  qed
qed

lemma theme_refs_length: "length (theme_refs vs) \<le> length vs"
  by (induction vs rule: theme_refs.induct) simp_all

lemma theme_refs_all:
  "length (theme_refs vs) = length vs \<Longrightarrow> ThemeObj r \<in> set vs \<Longrightarrow> r \<in> set (theme_refs vs)"
  by (induction vs rule: theme_refs.induct) auto

lemma ex_loadCurrentThemes_broken:
  "loadCurrentThemes ex_env_broken ex_world =
     (Inr (Rejected (CompileError ''parse error'')),
      ex_world\<lparr>heap := (heap ex_world)
                 (0 := ex_theme\<lparr>scrollbar := Some [''body::-webkit-scrollbar{width:1px}'']\<rparr>),
               trace := [FsReadAsText ''/themes/a.css'',
                         LessParse ''/themes/a.css'' ''.theme-a{ body{color:red}}'']\<rparr>)"
proof -
  have g: "getCurrentThemes ex_env_broken ex_world = Inr [ThemeObj 0]"
    by (simp add: getCurrentThemes_def registry_lookup_def ex_env_broken_def ex_env_def ex_world_def)
  have t: "loadTheme ex_env_broken 0
             (ex_world\<lparr>trace := trace ex_world @ [FsReadAsText (path (tfile (heap ex_world 0)))]\<rparr>) =
           (Rejected (CompileError ''parse error''),
            ex_world\<lparr>heap := (heap ex_world)
                 (0 := ex_theme\<lparr>scrollbar := Some [''body::-webkit-scrollbar{width:1px}'']\<rparr>),
               trace := [FsReadAsText ''/themes/a.css'',
                         LessParse ''/themes/a.css'' ''.theme-a{ body{color:red}}'']\<rparr>)"
  proof -
    let ?w = "ex_world\<lparr>trace := trace ex_world @ [FsReadAsText (path (tfile (heap ex_world 0)))]\<rparr>"
    have r: "fs_readAsText ex_env_broken (path (tfile (heap ?w 0))) =
               Inr ''body::-webkit-scrollbar{width:1px} body{color:red}''"
      by (simp add: ex_env_broken_def ex_env_def)
    have l: "less_parse ex_env_broken (path (tfile (heap ?w 0)))
               (''.'' @ className (heap ?w 0) @ ''{'' @
                r_content (extractScrollbars ''body::-webkit-scrollbar{width:1px} body{color:red}'') @ ''}'') =
               Inl ''parse error''"
      by (simp add: ex_env_broken_def)
    show ?thesis
      unfolding loadTheme_compile_error[OF r l] ex_extract
      by (simp add: ex_world_def ex_theme_def)
  qed
  show ?thesis
    unfolding loadCurrentThemes_def g by (simp add: t Let_def)
qed

text \<open>
  Claim C1 says that a failed compile leaves both \<open>scrollbar\<close> and \<open>css\<close> of the
  theme as they were. The scrollbar rules are stored as soon as the source is read,
  before the compile step: with a parser that fails, the theme of the example state
  keeps its style node but its scrollbar rules change from none to the rule of the
  source.
\<close>

theorem scrollbar_changed_by_failed_compile:
  "fst (loadCurrentThemes ex_env_broken ex_world) = Inr (Rejected (CompileError ''parse error'')) \<and>
   css (heap (snd (loadCurrentThemes ex_env_broken ex_world)) 0) = css (heap ex_world 0) \<and>
   scrollbar (heap ex_world 0) = Some [] \<and>
   scrollbar (heap (snd (loadCurrentThemes ex_env_broken ex_world)) 0) =
     Some [''body::-webkit-scrollbar{width:1px}'']"
  unfolding ex_loadCurrentThemes_broken by (simp add: ex_world_def ex_theme_def)

text \<open>
  Claim C1, amended: for every selected theme whose compile step fails in
  \<open>loadCurrentThemes\<close> (the less parser passes an error to its callback), the
  returned promise is rejected and the theme's \<open>css\<close> has the value it had before
  the operation; its \<open>scrollbar\<close> does not: it holds the rules extracted from the
  source that was just read.
\<close>

theorem failed_compile_keeps_css:
  assumes "loadCurrentThemes en w = (Inr p, w')"
    and "getCurrentThemes en w = Inr themes" and "ThemeObj r \<in> set themes"
    and "fs_readAsText en (path (tfile (heap w r))) = Inr content"
    and "less_parse en (path (tfile (heap w r)))
           (''.'' @ className (heap w r) @ ''{'' @ r_content (extractScrollbars content) @ ''}'') = Inl err"
  shows "(\<exists>e. p = Rejected e) \<and> css (heap w' r) = css (heap w r) \<and>
         scrollbar (heap w' r) = Some (r_scrollbar (extractScrollbars content))"
proof -
  let ?started = "theme_refs themes"
  let ?w1 = "w\<lparr>trace := trace w @ map (\<lambda>r. FsReadAsText (path (tfile (heap w r)))) ?started\<rparr>"
  obtain ps w2 where run: "loadThemes en ?started ?w1 = (ps, w2)"
    by (cases "loadThemes en ?started ?w1")
  from assms(1) run have all: "\<not> length ?started < length themes"
    and p: "p = when_all ps" and w': "w' = w2"
    unfolding loadCurrentThemes_def assms(2) by (auto simp: Let_def split: if_splits)
  from all theme_refs_length[of themes] have "length ?started = length themes" by simp
  with assms(3) have r: "r \<in> set ?started" by (rule theme_refs_all[rotated])
  have r1: "fs_readAsText en (path (tfile (heap ?w1 r))) = Inr content"
    using assms(4) by simp
  have l1: "less_parse en (path (tfile (heap ?w1 r)))
           (''.'' @ className (heap ?w1 r) @ ''{'' @ r_content (extractScrollbars content) @ ''}'') = Inl err"
    using assms(5) by simp
  from loadThemes_failed_compile[OF r1 l1 run] r
  have "css (heap w2 r) = css (heap w r)"
    and "scrollbar (heap w2 r) = Some (r_scrollbar (extractScrollbars content))"
    and "Rejected (CompileError err) \<in> set ps"
    by simp_all
  with when_all_rejected[of "CompileError err" ps] p w' show ?thesis by simp
qed

theorem failed_compile_keeps_css_witness:
  "fst (loadCurrentThemes ex_env_broken ex_world) = Inr (Rejected (CompileError ''parse error'')) \<and>
   getCurrentThemes ex_env_broken ex_world = Inr [ThemeObj 0] \<and>
   css (heap ex_world 0) = Some 0 \<and>
   css (heap (snd (loadCurrentThemes ex_env_broken ex_world)) 0) = Some 0 \<and>
   scrollbar (heap (snd (loadCurrentThemes ex_env_broken ex_world)) 0) =
     Some [''body::-webkit-scrollbar{width:1px}'']"
proof -
  have h1: "loadCurrentThemes ex_env_broken ex_world =
              (Inr (Rejected (CompileError ''parse error'')), snd (loadCurrentThemes ex_env_broken ex_world))"
    by (simp add: ex_loadCurrentThemes_broken)
  have h2: "getCurrentThemes ex_env_broken ex_world = Inr [ThemeObj 0]"
    by (simp add: getCurrentThemes_def registry_lookup_def ex_env_broken_def ex_env_def ex_world_def)
  have h3: "ThemeObj 0 \<in> set [ThemeObj 0]" by simp
  have h4: "fs_readAsText ex_env_broken (path (tfile (heap ex_world 0))) =
              Inr ''body::-webkit-scrollbar{width:1px} body{color:red}''"
    by (simp add: ex_env_broken_def ex_env_def)
  have h5: "less_parse ex_env_broken (path (tfile (heap ex_world 0)))
              (''.'' @ className (heap ex_world 0) @ ''{'' @
               r_content (extractScrollbars ''body::-webkit-scrollbar{width:1px} body{color:red}'') @ ''}'') =
              Inl ''parse error''"
    by (simp add: ex_env_broken_def)
  from failed_compile_keeps_css[OF h1 h2 h3 h4 h5] h2 show ?thesis
    unfolding ex_loadCurrentThemes_broken ex_extract by (simp add: ex_world_def ex_theme_def)
qed

text \<open>
  Claim C2: for a theme that already has a style node, the chain inserts the new style
  sheet before it removes the previous node, and stores the new node after that; when
  the chain fails, nothing is removed and the previous node stays the theme's.
\<close>

theorem new_style_inserted_before_old_removed:
  assumes "css (heap w r) = Some old" and "loadTheme en r w = (p, w')"
  shows "(\<exists>src style.
            p = Resolved r \<and>
            trace w' = trace w @
              [LessParse (path (tfile (heap w r))) src,
               AddEmbeddedStyleSheet style (next_handle w),
               RemoveNode old] \<and>
            css (heap w' r) = Some (next_handle w) \<and>
            styles w' = filter (\<lambda>(h, s). h \<noteq> old) (styles w @ [(next_handle w, style)]))
         \<or> ((\<exists>e. p = Rejected e) \<and> css (heap w' r) = Some old \<and> styles w' = styles w \<and>
             (\<forall>h. RemoveNode h \<notin> set (drop (length (trace w)) (trace w'))))"
proof (cases "fs_readAsText en (path (tfile (heap w r)))")
  case (Inl e)
  from loadTheme_read_error[OF Inl] assms show ?thesis by auto
next
  case (Inr content)
  show ?thesis
  proof (cases "less_parse en (path (tfile (heap w r)))
           (''.'' @ className (heap w r) @ ''{'' @ r_content (extractScrollbars content) @ ''}'')")
    case l: (Inl e)
    from loadTheme_compile_error[OF Inr l] assms show ?thesis by auto
  next
    case l: (Inr style)
    from loadTheme_success[OF Inr l] assms show ?thesis by auto
  qed
qed

theorem new_style_inserted_before_old_removed_witness:
  "css (heap ex_world 0) = Some 0 \<and>
   fst (loadTheme ex_env 0 ex_world) = Resolved 0 \<and>
   trace (snd (loadTheme ex_env 0 ex_world)) =
     [LessParse ''/themes/a.css'' ''.theme-a{ body{color:red}}'',
      AddEmbeddedStyleSheet ''.theme-a{ body{color:red}}'' 1,
      RemoveNode 0] \<and>
   css (heap (snd (loadTheme ex_env 0 ex_world)) 0) = Some 1 \<and>
   styles ex_world = [(0, ''.theme-a{}'')] \<and>
   styles (snd (loadTheme ex_env 0 ex_world)) = [(1, ''.theme-a{ body{color:red}}'')]"
proof -
  have h1: "css (heap ex_world 0) = Some 0" by (simp add: ex_world_def ex_theme_def)
  have h2: "loadTheme ex_env 0 ex_world = (fst (loadTheme ex_env 0 ex_world), snd (loadTheme ex_env 0 ex_world))"
    by simp
  from new_style_inserted_before_old_removed[OF h1 h2] show ?thesis
    unfolding ex_loadTheme by (simp add: ex_world_def ex_theme_def)
qed

end
